theory Spec2Isabelle
  imports Main
begin

section \<open>Strings of the source language\<close>

text \<open>
  A Python \<open>str\<close> is modelled as a \<open>string\<close>: a list of characters, each one a
  code point below 256. The character classes below are the ones the parser's regular
  expressions and \<open>str.strip\<close> use, restricted to that range.
\<close>

definition LF :: char where
  "LF = CHR 0x0A"

definition CR :: char where
  "CR = CHR 0x0D"

definition is_eol :: "char \<Rightarrow> bool" where
  "is_eol c = (c = LF \<or> c = CR)"

definition is_digit :: "char \<Rightarrow> bool" where
  "is_digit c = (c \<in> set ''0123456789'')"

definition is_nonzero_digit :: "char \<Rightarrow> bool" where
  "is_nonzero_digit c = (c \<in> set ''123456789'')"

definition is_tag_char :: "char \<Rightarrow> bool" where
  "is_tag_char c =
     (c \<in> set ''ABCDEFGHIJKLMNOPQRSTUVWXYZabcdefghijklmnopqrstuvwxyz0123456789_'')"

text \<open>
  \<open>str.isspace\<close> on the code points below 256: the characters \<open>str.strip()\<close>
  removes when it is called without an argument.
\<close>

definition is_space :: "char \<Rightarrow> bool" where
  "is_space c =
     (c \<in> {CHR 0x09, CHR 0x0A, CHR 0x0B, CHR 0x0C, CHR 0x0D, CHR 0x1C, CHR 0x1D,
            CHR 0x1E, CHR 0x1F, CHR 0x20, CHR 0x85, CHR 0xA0})"

definition lstrip :: "string \<Rightarrow> string" where
  "lstrip s = dropWhile is_space s"

definition rstrip :: "string \<Rightarrow> string" where
  "rstrip s = rev (dropWhile is_space (rev s))"

text \<open>\<open>s.strip()\<close>\<close>

definition strip :: "string \<Rightarrow> string" where
  "strip s = rstrip (lstrip s)"

text \<open>\<open>s.rstrip(' ')\<close>\<close>

definition rstrip_blank :: "string \<Rightarrow> string" where
  "rstrip_blank s = rev (dropWhile (\<lambda>c. c = CHR '' '') (rev s))"

text \<open>\<open>s.split("\n")\<close>: never empty, one more part than there are line feeds.\<close>

fun split_lf :: "string \<Rightarrow> string list" where
  "split_lf [] = [[]]"
| "split_lf (c # cs) =
     (if c = LF then [] # split_lf cs
      else (case split_lf cs of
              [] \<Rightarrow> [[c]]
            | l # ls \<Rightarrow> (c # l) # ls))"

text \<open>\<open>int(s)\<close> on a string of ASCII digits.\<close>

definition digit_val :: "char \<Rightarrow> int" where
  "digit_val c = int (of_char c) - 48"

definition int_of_digits :: "string \<Rightarrow> int" where
  "int_of_digits s = foldl (\<lambda>n c. 10 * n + digit_val c) 0 s"

section \<open>The line grammar\<close>

text \<open>
  \<open>parse_line\<close> builds its regular expressions from five pieces and matches them
  with \<open>re.match\<close>, anchored at the start of the line and not at its end. Each piece
  is a function from the text still to be matched to the captured group and the rest.
  Every piece is followed by a character its own class excludes (a digit run by a
  space, the tag by a space or a line end, the value by a line end), so a shorter match
  of a greedy piece never lets the whole expression succeed and the longest match of
  each piece is the only one to try.
\<close>

text \<open>\<open>level_regex = '^(0|[1-9]+[0-9]*) '\<close>\<close>

definition level_regex :: "string \<Rightarrow> (string \<times> string) option" where
  "level_regex s =
     (let d = takeWhile is_digit s; r = dropWhile is_digit s
      in if d \<noteq> [] \<and> (d = ''0'' \<or> is_nonzero_digit (hd d)) \<and> r \<noteq> [] \<and> hd r = CHR '' ''
         then Some (d, tl r) else None)"

text \<open>
  \<open>pointer_regex = '(@[^@]+@ |)'\<close>. When the first alternative does not match, the
  group is empty; the tag that follows cannot start with \<open>@\<close>, so the empty
  alternative after a matching first one never succeeds either.
\<close>

definition pointer_regex :: "string \<Rightarrow> string \<times> string" where
  "pointer_regex s =
     (case s of
        [] \<Rightarrow> ([], s)
      | c # t \<Rightarrow>
          (let b = takeWhile (\<lambda>x. x \<noteq> CHR ''@'') t; r = dropWhile (\<lambda>x. x \<noteq> CHR ''@'') t
           in if c = CHR ''@'' \<and> b \<noteq> [] \<and> take 2 r = ''@ ''
              then (c # b @ ''@ '', drop 2 r) else ([], s)))"

text \<open>\<open>tag_regex = '([A-Za-z0-9_]+)'\<close>\<close>

definition tag_regex :: "string \<Rightarrow> (string \<times> string) option" where
  "tag_regex s =
     (let t = takeWhile is_tag_char s
      in if t \<noteq> [] then Some (t, dropWhile is_tag_char s) else None)"

text \<open>\<open>value_regex = '( [^\n\r]*|)'\<close>\<close>

definition value_regex :: "string \<Rightarrow> string \<times> string" where
  "value_regex s =
     (case s of
        [] \<Rightarrow> ([], s)
      | c # t \<Rightarrow>
          if c = CHR '' '' then (c # takeWhile (\<lambda>x. \<not> is_eol x) t, dropWhile (\<lambda>x. \<not> is_eol x) t)
          else ([], s))"

text \<open>\<open>end_of_line_regex = '([\r\n]{1,2})'\<close>\<close>

definition end_of_line_regex :: "string \<Rightarrow> (string \<times> string) option" where
  "end_of_line_regex s =
     (case s of
        [] \<Rightarrow> None
      | c # t \<Rightarrow>
          if is_eol c
          then (case t of
                  [] \<Rightarrow> Some ([c], t)
                | c' # t' \<Rightarrow> if is_eol c' then Some ([c, c'], t') else Some ([c], t))
          else None)"

text \<open>
  \<open>last_line_regex = level_regex + pointer_regex + tag_regex + value_regex\<close>, the
  groups of \<open>re.match(last_line_regex, line)\<close> and the text after the match.
\<close>

definition last_line_regex ::
  "string \<Rightarrow> ((string \<times> string \<times> string \<times> string) \<times> string) option" where
  "last_line_regex line =
     (case level_regex line of
        None \<Rightarrow> None
      | Some (g1, r1) \<Rightarrow>
          (case pointer_regex r1 of
             (g2, r2) \<Rightarrow>
               (case tag_regex r2 of
                  None \<Rightarrow> None
                | Some (g3, r3) \<Rightarrow>
                    (case value_regex r3 of
                       (g4, r4) \<Rightarrow> Some ((g1, g2, g3, g4), r4)))))"

text \<open>\<open>gedcom_line_regex = last_line_regex + end_of_line_regex\<close>\<close>

definition gedcom_line_regex ::
  "string \<Rightarrow> (string \<times> string \<times> string \<times> string \<times> string) option" where
  "gedcom_line_regex line =
     (case last_line_regex line of
        None \<Rightarrow> None
      | Some ((g1, g2, g3, g4), r4) \<Rightarrow>
          (case end_of_line_regex r4 of
             None \<Rightarrow> None
           | Some (g5, r5) \<Rightarrow> Some (g1, g2, g3, g4, g5)))"

text \<open>\<open>cont_line_regex = '([^\n\r]*|)' + end_of_line_regex\<close>\<close>

definition cont_line_regex :: "string \<Rightarrow> (string \<times> string) option" where
  "cont_line_regex line =
     (case end_of_line_regex (dropWhile (\<lambda>x. \<not> is_eol x) line) of
        None \<Rightarrow> None
      | Some (g2, r) \<Rightarrow> Some (takeWhile (\<lambda>x. \<not> is_eol x) line, g2))"

section \<open>Elements and the object store\<close>

text \<open>
  Modelled from the spec: the \<open>Element\<close> class and its subclasses
  (\<open>python_gedcom_2.element\<close>), which the parser imports and which are not among the
  sources. An element holds level, pointer, tag, value and line terminator, an ordered
  list of children and a back-reference to its parent. The fields carry the names of
  the accessors the parser calls. Elements are mutable objects that refer to each other,
  so they live in a store: a list of elements, a reference being an index into it. A new
  object is appended, so every reference the parser holds stays valid.
\<close>

record element =
  get_level :: int
  get_pointer :: "string option"
  get_tag :: string
  get_value :: string
  get_crlf :: string
  get_child_elements :: "nat list"
  get_parent_element :: "nat option"

type_synonym heap = "element list"

text \<open>
  Modelled from the spec: the tag constants of \<open>python_gedcom_2.tags\<close>, with their
  GEDCOM 5.5 values.
\<close>

definition GEDCOM_TAG_CONCATENATION :: string where
  "GEDCOM_TAG_CONCATENATION = ''CONC''"

definition GEDCOM_TAG_CONTINUED :: string where
  "GEDCOM_TAG_CONTINUED = ''CONT''"

definition GEDCOM_TAG_INDIVIDUAL :: string where
  "GEDCOM_TAG_INDIVIDUAL = ''INDI''"

definition GEDCOM_TAG_FAMILY :: string where
  "GEDCOM_TAG_FAMILY = ''FAM''"

definition GEDCOM_TAG_FAMILY_SPOUSE :: string where
  "GEDCOM_TAG_FAMILY_SPOUSE = ''FAMS''"

definition GEDCOM_TAG_FAMILY_CHILD :: string where
  "GEDCOM_TAG_FAMILY_CHILD = ''FAMC''"

definition GEDCOM_TAG_HUSBAND :: string where
  "GEDCOM_TAG_HUSBAND = ''HUSB''"

definition GEDCOM_TAG_WIFE :: string where
  "GEDCOM_TAG_WIFE = ''WIFE''"

definition GEDCOM_TAG_MARRIAGE :: string where
  "GEDCOM_TAG_MARRIAGE = ''MARR''"

definition GEDCOM_TAG_DATE :: string where
  "GEDCOM_TAG_DATE = ''DATE''"

definition GEDCOM_TAG_PLACE :: string where
  "GEDCOM_TAG_PLACE = ''PLAC''"

text \<open>
  Modelled from the spec: \<open>RootElement()\<close>, the virtual root at level -1 with no
  parent and no children.
\<close>

definition RootElement :: element where
  "RootElement =
     \<lparr>get_level = - 1, get_pointer = Some [], get_tag = ''ROOT'', get_value = [],
      get_crlf = [LF], get_child_elements = [], get_parent_element = None\<rparr>"

text \<open>
  Modelled from the spec: \<open>ElementCreator.create_element\<close> with
  \<open>is_multiline=False\<close>: a new object with the five fields of the line, no children
  and no parent. The subclass it picks is decided by the tag alone, so it is read off
  the tag where the queries test it.
\<close>

definition create_element ::
  "heap \<Rightarrow> int \<Rightarrow> string option \<Rightarrow> string \<Rightarrow> string \<Rightarrow> string \<Rightarrow> heap \<times> nat" where
  "create_element h level pointer tag v crlf =
     (h @ [\<lparr>get_level = level, get_pointer = pointer, get_tag = tag, get_value = v,
            get_crlf = crlf, get_child_elements = [], get_parent_element = None\<rparr>],
      length h)"

text \<open>
  Modelled from the spec: \<open>parent.add_child_element(element)\<close> appends the element
  to the parent's children and sets the element's parent.
\<close>

definition add_child_element :: "heap \<Rightarrow> nat \<Rightarrow> nat \<Rightarrow> heap" where
  "add_child_element h p e =
     (let h1 = h[p := (h ! p)\<lparr>get_child_elements := get_child_elements (h ! p) @ [e]\<rparr>]
      in h1[e := (h1 ! e)\<lparr>get_parent_element := Some p\<rparr>])"

section \<open>Errors\<close>

text \<open>
  \<open>GedcomFormatViolationError\<close> carries what its message is built from: the line
  number, and the raw line when the grammar failed. \<open>AttributeError\<close> is what Python
  raises when a method is called on \<open>None\<close>.
\<close>

datatype error =
  GedcomFormatViolationError int "string option"
| AttributeError
| NotAnActualIndividualError

section \<open>parse_line\<close>

text \<open>
  The first half of \<open>parse_line\<close>: the fields of the line, from the primary grammar
  or, when not strict, from the two quirk recoveries. The terminator-less grammar sets
  the terminator to a line feed; the free-text recovery takes level and tag from the
  previous element and calls \<open>groups()\<close> on the match without testing it.
\<close>

type_synonym line_parts = "int \<times> string option \<times> string \<times> string \<times> string"

definition line_fields :: "int \<Rightarrow> string \<Rightarrow> element \<Rightarrow> bool \<Rightarrow> error + line_parts" where
  "line_fields line_number line last_element strict =
     (case gedcom_line_regex line of
        None \<Rightarrow>
          if strict then Inl (GedcomFormatViolationError line_number (Some line))
          else
            (case last_line_regex line of
               Some ((g1, g2, g3, g4), r) \<Rightarrow>
                 Inr (int_of_digits g1, Some (rstrip_blank g2), g3, strip g4, [LF])
             | None \<Rightarrow>
                 (case cont_line_regex line of
                    None \<Rightarrow> Inl AttributeError
                  | Some (g1, g2) \<Rightarrow>
                      if get_tag last_element \<noteq> GEDCOM_TAG_CONTINUED
                         \<and> get_tag last_element \<noteq> GEDCOM_TAG_CONCATENATION
                      then Inr (get_level last_element + 1, None, GEDCOM_TAG_CONCATENATION,
                                strip g1, g2)
                      else Inr (get_level last_element, None, get_tag last_element,
                                strip g1, g2)))
      | Some (g1, g2, g3, g4, g5) \<Rightarrow>
          Inr (int_of_digits g1, Some (rstrip_blank g2), g3, strip g4, g5))"

text \<open>
  The loop \<open>while parent_element.get_level() > level - 1\<close>: it follows parent
  references, raises when it steps onto \<open>None\<close>, and does not return on a store whose
  parent references form a cycle (the value \<open>None\<close> of the option type).
\<close>

partial_function (option) find_parent :: "heap \<Rightarrow> nat \<Rightarrow> int \<Rightarrow> (error + nat) option" where
  "find_parent h parent_element level =
     (if get_level (h ! parent_element) > level - 1
      then (case get_parent_element (h ! parent_element) of
              None \<Rightarrow> Some (Inl AttributeError)
            | Some q \<Rightarrow> find_parent h q level)
      else Some (Inr parent_element))"

declare find_parent.simps [code]

text \<open>
  \<open>Parser.parse_line\<close>: the fields, the level check, the new element, the walk up
  to its parent, the attachment. It returns the new store and the new element.
\<close>

definition parse_line ::
  "int \<Rightarrow> string \<Rightarrow> heap \<Rightarrow> nat \<Rightarrow> bool \<Rightarrow> (error + heap \<times> nat) option" where
  "parse_line line_number line h last_element strict =
     (case line_fields line_number line (h ! last_element) strict of
        Inl e \<Rightarrow> Some (Inl e)
      | Inr (level, pointer, tag, v, crlf) \<Rightarrow>
          if level > get_level (h ! last_element) + 1
          then Some (Inl (GedcomFormatViolationError line_number None))
          else
            (case create_element h level pointer tag v crlf of
               (h1, element) \<Rightarrow>
                 (case find_parent h1 last_element level of
                    None \<Rightarrow> None
                  | Some (Inl e) \<Rightarrow> Some (Inl e)
                  | Some (Inr parent_element) \<Rightarrow>
                      Some (Inr (add_child_element h1 parent_element element, element)))))"

section \<open>The parser\<close>

text \<open>
  The state of a \<open>Parser\<close> object: the two caches, the root element and the store
  the document's elements live in. A fresh root replaces the previous document, which
  the parser no longer reaches, so the store restarts with the root alone.
\<close>

record parser =
  element_list :: "nat list"
  element_dictionary :: "(string \<times> nat) list"
  root_element :: nat
  elements :: heap

definition init_parser :: parser where
  "init_parser =
     \<lparr>element_list = [], element_dictionary = [], root_element = 0, elements = [RootElement]\<rparr>"

definition invalidate_cache :: "parser \<Rightarrow> parser" where
  "invalidate_cache p = p\<lparr>element_list := [], element_dictionary := []\<rparr>"

text \<open>
  The loop of \<open>parse\<close> over the lines. An exception leaves the loop at once; the
  elements attached so far stay in the store, under the root.
\<close>

fun parse_lines ::
  "int \<Rightarrow> heap \<Rightarrow> nat \<Rightarrow> string list \<Rightarrow> bool \<Rightarrow> (error option \<times> heap) option" where
  "parse_lines line_number h last_element [] strict = Some (None, h)"
| "parse_lines line_number h last_element (line # rest) strict =
     (case parse_line line_number line h last_element strict of
        None \<Rightarrow> None
      | Some (Inl e) \<Rightarrow> Some (Some e, h)
      | Some (Inr (h', element)) \<Rightarrow> parse_lines (line_number + 1) h' element rest strict)"

text \<open>
  \<open>Parser.parse\<close>: the raised exception, if any, and the parser afterwards.
\<close>

definition parse :: "parser \<Rightarrow> string \<Rightarrow> bool \<Rightarrow> (error option \<times> parser) option" where
  "parse p string strict =
     (let p1 = (invalidate_cache p)\<lparr>root_element := 0, elements := [RootElement]\<rparr>
      in case parse_lines 1 (elements p1) (root_element p1) (split_lf (strip string)) strict of
           None \<Rightarrow> None
         | Some (err, h) \<Rightarrow> Some (err, p1\<lparr>elements := h\<rparr>))"

text \<open>\<open>get_root_element\<close> and \<open>get_root_child_elements\<close>\<close>

definition get_root_element :: "parser \<Rightarrow> nat" where
  "get_root_element p = root_element p"

definition get_root_child_elements :: "parser \<Rightarrow> nat list" where
  "get_root_child_elements p = get_child_elements (elements p ! get_root_element p)"

section \<open>The pointer index\<close>

text \<open>
  A Python \<open>dict\<close> with insertion order: \<open>d[k] = v\<close> replaces the value of a key
  that is there and appends a new key; \<open>map_of\<close> looks a key up.
\<close>

fun dict_set :: "'k \<Rightarrow> 'v \<Rightarrow> ('k \<times> 'v) list \<Rightarrow> ('k \<times> 'v) list" where
  "dict_set k v [] = [(k, v)]"
| "dict_set k v ((k', v') # d) = (if k = k' then (k, v) # d else (k', v') # dict_set k v d)"

text \<open>The truth value of a pointer: \<open>None\<close> and the empty string are false.\<close>

definition truthy :: "string option \<Rightarrow> bool" where
  "truthy x = (case x of None \<Rightarrow> False | Some s \<Rightarrow> s \<noteq> [])"

text \<open>
  The dictionary comprehension of \<open>get_element_dictionary\<close>, over the root's
  children that have a pointer.
\<close>

definition build_dictionary :: "parser \<Rightarrow> (string \<times> nat) list" where
  "build_dictionary p =
     foldl (\<lambda>d element.
              case get_pointer (elements p ! element) of
                None \<Rightarrow> d
              | Some k \<Rightarrow> if truthy (Some k) then dict_set k element d else d)
           [] (get_root_child_elements p)"

text \<open>
  \<open>get_element_dictionary\<close> returns the cached dictionary unless it is empty, and
  fills the cache otherwise. The queries below do not change the tree, so filling the
  cache does not change what a later call returns (lemma \<open>cache_fill_idem\<close>); the
  model returns the dictionary and leaves the parser as it is.
\<close>

definition get_element_dictionary :: "parser \<Rightarrow> (string \<times> nat) list" where
  "get_element_dictionary p =
     (if element_dictionary p = [] then build_dictionary p else element_dictionary p)"

definition get_element_by_pointer :: "parser \<Rightarrow> string \<Rightarrow> nat option" where
  "get_element_by_pointer p pointer = map_of (get_element_dictionary p) pointer"

section \<open>Individuals and families\<close>

text \<open>
  Modelled from the spec: \<open>isinstance(x, IndividualElement)\<close> and
  \<open>isinstance(x, FamilyElement)\<close>. The two classes are the elements with the
  individual and the family tag; \<open>None\<close> is an instance of neither.
\<close>

definition is_IndividualElement :: "parser \<Rightarrow> nat option \<Rightarrow> bool" where
  "is_IndividualElement p x =
     (case x of None \<Rightarrow> False
      | Some i \<Rightarrow> get_tag (elements p ! i) = GEDCOM_TAG_INDIVIDUAL)"

definition is_FamilyElement :: "parser \<Rightarrow> nat option \<Rightarrow> bool" where
  "is_FamilyElement p x =
     (case x of None \<Rightarrow> False
      | Some i \<Rightarrow> get_tag (elements p ! i) = GEDCOM_TAG_FAMILY)"

text \<open>
  Modelled from the spec: the link accessors of \<open>IndividualElement\<close> and
  \<open>FamilyElement\<close>, which are not among the sources. A link is a direct child with the
  link's tag, and its value is the pointer; the first such child is the one read.
\<close>

definition children_with_tag :: "parser \<Rightarrow> nat \<Rightarrow> string \<Rightarrow> nat list" where
  "children_with_tag p i tag =
     filter (\<lambda>c. get_tag (elements p ! c) = tag) (get_child_elements (elements p ! i))"

definition first_value :: "parser \<Rightarrow> nat \<Rightarrow> string \<Rightarrow> string" where
  "first_value p i tag =
     (case children_with_tag p i tag of [] \<Rightarrow> [] | c # cs \<Rightarrow> get_value (elements p ! c))"

definition is_child_in_a_family :: "parser \<Rightarrow> nat \<Rightarrow> bool" where
  "is_child_in_a_family p i = (children_with_tag p i GEDCOM_TAG_FAMILY_CHILD \<noteq> [])"

definition get_parent_family_pointer :: "parser \<Rightarrow> nat \<Rightarrow> string" where
  "get_parent_family_pointer p i = first_value p i GEDCOM_TAG_FAMILY_CHILD"

definition has_husband :: "parser \<Rightarrow> nat \<Rightarrow> bool" where
  "has_husband p f = (children_with_tag p f GEDCOM_TAG_HUSBAND \<noteq> [])"

definition get_husband_pointer :: "parser \<Rightarrow> nat \<Rightarrow> string" where
  "get_husband_pointer p f = first_value p f GEDCOM_TAG_HUSBAND"

definition has_wife :: "parser \<Rightarrow> nat \<Rightarrow> bool" where
  "has_wife p f = (children_with_tag p f GEDCOM_TAG_WIFE \<noteq> [])"

definition get_wife_pointer :: "parser \<Rightarrow> nat \<Rightarrow> string" where
  "get_wife_pointer p f = first_value p f GEDCOM_TAG_WIFE"

section \<open>Relationship queries\<close>

text \<open>
  An argument of a query is a reference or \<open>None\<close>, as a Python variable is. Every
  query starts with the \<open>isinstance\<close> test and raises
  \<open>NotAnActualIndividualError\<close> when it fails.
\<close>

text \<open>\<open>Parser.get_families\<close>\<close>

definition get_families :: "parser \<Rightarrow> nat option \<Rightarrow> string \<Rightarrow> error + nat list" where
  "get_families p individual family_type =
     (case individual of
        None \<Rightarrow> Inl NotAnActualIndividualError
      | Some i \<Rightarrow>
          if \<not> is_IndividualElement p individual then Inl NotAnActualIndividualError
          else
            Inr (foldl (\<lambda>families child_element.
                          if get_tag (elements p ! child_element) = family_type
                          then (case map_of (get_element_dictionary p)
                                       (get_value (elements p ! child_element)) of
                                  None \<Rightarrow> families
                                | Some family \<Rightarrow> families @ [family])
                          else families)
                       [] (get_child_elements (elements p ! i))))"

text \<open>
  \<open>Parser.get_marriages\<close>: three nested loops. The innermost one assigns
  \<open>date\<close> and \<open>place\<close> at every child with the tag and does not leave the loop.
\<close>

definition marriage_data_step :: "parser \<Rightarrow> string \<times> string \<Rightarrow> nat \<Rightarrow> string \<times> string" where
  "marriage_data_step p dp marriage_data =
     (case dp of
        (date, place) \<Rightarrow>
          (let date1 = (if get_tag (elements p ! marriage_data) = GEDCOM_TAG_DATE
                        then get_value (elements p ! marriage_data) else date);
               place1 = (if get_tag (elements p ! marriage_data) = GEDCOM_TAG_PLACE
                         then get_value (elements p ! marriage_data) else place)
           in (date1, place1)))"

definition family_data_step ::
  "parser \<Rightarrow> (string \<times> string) list \<Rightarrow> nat \<Rightarrow> (string \<times> string) list" where
  "family_data_step p marriages family_data =
     (if get_tag (elements p ! family_data) = GEDCOM_TAG_MARRIAGE
      then marriages @ [foldl (marriage_data_step p) ([], [])
                          (get_child_elements (elements p ! family_data))]
      else marriages)"

definition get_marriages :: "parser \<Rightarrow> nat option \<Rightarrow> error + (string \<times> string) list" where
  "get_marriages p individual =
     (if \<not> is_IndividualElement p individual then Inl NotAnActualIndividualError
      else
        (case get_families p individual GEDCOM_TAG_FAMILY_SPOUSE of
           Inl e \<Rightarrow> Inl e
         | Inr families \<Rightarrow>
             Inr (foldl (\<lambda>marriages family.
                           foldl (family_data_step p) marriages
                             (get_child_elements (elements p ! family)))
                        [] families)))"

text \<open>\<open>Parser.get_parents\<close>: the pair (husband, wife), each one a reference or \<open>None\<close>.\<close>

definition get_parents :: "parser \<Rightarrow> nat option \<Rightarrow> error + nat option \<times> nat option" where
  "get_parents p individual =
     (case individual of
        None \<Rightarrow> Inl NotAnActualIndividualError
      | Some i \<Rightarrow>
          if \<not> is_IndividualElement p individual then Inl NotAnActualIndividualError
          else if \<not> is_child_in_a_family p i then Inr (None, None)
          else
            (case get_element_by_pointer p (get_parent_family_pointer p i) of
               None \<Rightarrow> Inr (None, None)
             | Some family \<Rightarrow>
                 if \<not> is_FamilyElement p (Some family) then Inr (None, None)
                 else
                   (let husband = (if has_husband p family
                                   then get_element_by_pointer p (get_husband_pointer p family)
                                   else None);
                        wife = (if has_wife p family
                                then get_element_by_pointer p (get_wife_pointer p family)
                                else None)
                    in Inr (husband, wife))))"

text \<open>
  \<open>Parser.get_ancestors\<close>: both parents are appended first, then the loop over the
  pair calls \<open>get_ancestors\<close> on the husband and on the wife, whatever they are. The
  recursion has no guard, so the result is an option: \<open>None\<close> is a call that does not
  return.
\<close>

partial_function (option) get_ancestors ::
  "parser \<Rightarrow> nat option \<Rightarrow> (error + nat option list) option" where
  "get_ancestors p individual =
     (if \<not> is_IndividualElement p individual then Some (Inl NotAnActualIndividualError)
      else
        (case get_parents p individual of
           Inl e \<Rightarrow> Some (Inl e)
         | Inr (husband, wife) \<Rightarrow>
             Option.bind (get_ancestors p husband) (\<lambda>r1.
               case r1 of
                 Inl e \<Rightarrow> Some (Inl e)
               | Inr a1 \<Rightarrow>
                   Option.bind (get_ancestors p wife) (\<lambda>r2.
                     case r2 of
                       Inl e \<Rightarrow> Some (Inl e)
                     | Inr a2 \<Rightarrow> Some (Inr (([] @ [husband, wife]) @ a1 @ a2))))))"

declare get_ancestors.simps [code]

text \<open>
  \<open>Parser.find_path_to_ancestor\<close>: \<open>Inr None\<close> is the returned \<open>None\<close>,
  \<open>Inr (Some path)\<close> a returned path. The loop over the pair of parents calls the
  function on the husband and, when that returns \<open>None\<close>, on the wife.
\<close>

partial_function (option) find_path_to_ancestor ::
  "parser \<Rightarrow> nat option \<Rightarrow> nat option \<Rightarrow> nat option list option
     \<Rightarrow> (error + nat option list option) option" where
  "find_path_to_ancestor p descendant ancestor path =
     (if \<not> is_IndividualElement p descendant \<or> \<not> is_IndividualElement p ancestor
      then Some (Inl NotAnActualIndividualError)
      else
        (let path1 = (case path of None \<Rightarrow> [descendant] | Some [] \<Rightarrow> [descendant] | Some xs \<Rightarrow> xs)
         in case (last path1, ancestor) of
              (Some l, Some a) \<Rightarrow>
                if get_pointer (elements p ! l) = get_pointer (elements p ! a)
                then Some (Inr (Some path1))
                else
                  (case get_parents p descendant of
                     Inl e \<Rightarrow> Some (Inl e)
                   | Inr (husband, wife) \<Rightarrow>
                       Option.bind
                         (find_path_to_ancestor p husband ancestor (Some (path1 @ [husband])))
                         (\<lambda>r1. case r1 of
                                 Inl e \<Rightarrow> Some (Inl e)
                               | Inr (Some potential_path) \<Rightarrow> Some (Inr (Some potential_path))
                               | Inr None \<Rightarrow>
                                   Option.bind
                                     (find_path_to_ancestor p wife ancestor
                                        (Some (path1 @ [wife])))
                                     (\<lambda>r2. case r2 of
                                             Inl e \<Rightarrow> Some (Inl e)
                                           | Inr (Some potential_path) \<Rightarrow>
                                               Some (Inr (Some potential_path))
                                           | Inr None \<Rightarrow> Some (Inr None))))
            | _ \<Rightarrow> Some (Inl AttributeError)))"

declare find_path_to_ancestor.simps [code]

section \<open>Well-formed trees\<close>

text \<open>
  The invariant of the store while a document is built: element 0 is the root, at
  level -1 and without a parent; every other element has a parent that was created
  before it and is one level above it; every entry of a child list refers to an element
  whose parent is the owner of the list.
\<close>

definition tree_inv :: "heap \<Rightarrow> bool" where
  "tree_inv h =
     (h \<noteq> [] \<and> get_level (h ! 0) = - 1 \<and> get_parent_element (h ! 0) = None
      \<and> get_tag (h ! 0) = ''ROOT''
      \<and> (\<forall>i<length h. 0 < i \<longrightarrow>
            (\<exists>q<i. get_parent_element (h ! i) = Some q
                   \<and> get_level (h ! i) = get_level (h ! q) + 1))
      \<and> (\<forall>i<length h. \<forall>c\<in>set (get_child_elements (h ! i)).
            c < length h \<and> get_parent_element (h ! c) = Some i))"

text \<open>
  The specification's notion of a well-formed tree: the root is at level -1 and every
  parent-child edge goes one level down.
\<close>

definition well_formed :: "heap \<Rightarrow> nat \<Rightarrow> bool" where
  "well_formed h root =
     (get_level (h ! root) = - 1
      \<and> (\<forall>i<length h. \<forall>c\<in>set (get_child_elements (h ! i)).
            c < length h \<and> get_level (h ! c) = get_level (h ! i) + 1))"

section \<open>Example documents\<close>

text \<open>The document a lenient parse of a text produces.\<close>

definition parsed_document :: "string \<Rightarrow> parser" where
  "parsed_document text =
     (case parse init_parser text False of
        Some (None, p) \<Rightarrow> p
      | _ \<Rightarrow> init_parser)"

definition head_text :: string where
  "head_text = ''0 HEAD'' @ [LF] @ ''1 SOUR x'' @ [LF]"

definition head_doc :: parser where
  "head_doc = parsed_document head_text"

definition data_doc :: parser where
  "data_doc = parsed_document (head_text @ ''2 DATA'' @ [LF])"

text \<open>The family of the specification's example: I1 is element 1, I2 element 4, F1 element 7, I3 element 11.\<close>

definition family_text :: string where
  "family_text =
     ''0 @I1@ INDI'' @ [LF] @ ''1 NAME John /Doe/'' @ [LF] @ ''1 FAMS @F1@'' @ [LF] @
     ''0 @I2@ INDI'' @ [LF] @ ''1 NAME Jane /Roe/'' @ [LF] @ ''1 FAMS @F1@'' @ [LF] @
     ''0 @F1@ FAM'' @ [LF] @ ''1 HUSB @I1@'' @ [LF] @ ''1 WIFE @I2@'' @ [LF] @
     ''1 CHIL @I3@'' @ [LF] @
     ''0 @I3@ INDI'' @ [LF] @ ''1 NAME Jim /Doe/'' @ [LF] @ ''1 FAMC @F1@'' @ [LF]"

definition family_doc :: parser where
  "family_doc = parsed_document family_text"

text \<open>The element a call of \<open>parse_line\<close> returns, when it returns one.\<close>

definition produced_element :: "(error + heap \<times> nat) option \<Rightarrow> element option" where
  "produced_element r = (case r of Some (Inr (h, e)) \<Rightarrow> Some (h ! e) | _ \<Rightarrow> None)"

text \<open>A document that jumps from level 1 to level 3 on its third line.\<close>

definition jump_text :: string where
  "jump_text = ''0 HEAD'' @ [CR, LF] @ ''1 SOUR x'' @ [CR, LF] @ ''3 DATA'' @ [CR, LF]
               @ ''0 TRLR'' @ [CR, LF]"

definition jump_heap :: heap where
  "jump_heap =
     (case parse_lines 1 [RootElement] 0 [''0 HEAD'' @ [CR], ''1 SOUR x'' @ [CR]] True of
        Some (None, h) \<Rightarrow> h
      | _ \<Rightarrow> [])"

text \<open>A line whose value has blanks on both sides and inside.\<close>

definition spaced_line :: string where
  "spaced_line = ''0 NOTE  two  words  '' @ [CR, LF]"

definition spaced_heap :: heap where
  "spaced_heap =
     (case parse_lines 1 [RootElement] 0 [spaced_line] True of
        Some (None, h) \<Rightarrow> h
      | _ \<Rightarrow> [])"

text \<open>A note, and a note followed by a concatenation line.\<close>

definition note_text :: string where
  "note_text = ''0 NOTE a'' @ [LF]"

definition note_doc :: parser where
  "note_doc = parsed_document note_text"

definition conc_text :: string where
  "conc_text = ''0 NOTE a'' @ [LF] @ ''1 CONC b'' @ [LF]"

definition conc_doc :: parser where
  "conc_doc = parsed_document conc_text"

section \<open>Marriages, as the loops compute them\<close>

text \<open>
  The value the innermost loop of \<open>get_marriages\<close> leaves in a field: that of the
  last child with the tag, or the empty string when there is none. The marriage events
  of a list of families are their children with the marriage tag, family by family.
\<close>

definition last_value :: "parser \<Rightarrow> nat \<Rightarrow> string \<Rightarrow> string" where
  "last_value p i tag =
     (if children_with_tag p i tag = [] then []
      else get_value (elements p ! last (children_with_tag p i tag)))"

definition marriage_events :: "parser \<Rightarrow> nat list \<Rightarrow> nat list" where
  "marriage_events p families =
     concat (map (\<lambda>family. children_with_tag p family GEDCOM_TAG_MARRIAGE) families)"

text \<open>
  A family with a husband and no wife, whose marriage event has two dates: I1 is
  element 1, F1 element 3, the marriage event element 6, I2 element 10.
\<close>

definition marriage_text :: string where
  "marriage_text =
     ''0 @I1@ INDI'' @ [LF] @ ''1 FAMS @F1@'' @ [LF] @
     ''0 @F1@ FAM'' @ [LF] @ ''1 HUSB @I1@'' @ [LF] @ ''1 CHIL @I2@'' @ [LF] @
     ''1 MARR'' @ [LF] @ ''2 DATE 1 JAN 1900'' @ [LF] @ ''2 PLAC Paris'' @ [LF] @
     ''2 DATE 2 FEB 1901'' @ [LF] @
     ''0 @I2@ INDI'' @ [LF] @ ''1 FAMC @F1@'' @ [LF]"

definition marriage_doc :: parser where
  "marriage_doc = parsed_document marriage_text"

section \<open>The grammar consumes the line from the left\<close>

lemma level_regex_Some:
  assumes "level_regex s = Some (d, r)"
  shows "s = d @ CHR '' '' # r"
proof -
  from assms have d: "d = takeWhile is_digit s"
    and ne: "dropWhile is_digit s \<noteq> []"
    and hd: "hd (dropWhile is_digit s) = CHR '' ''"
    and r: "r = tl (dropWhile is_digit s)"
    by (auto simp: level_regex_def Let_def split: if_splits)
  from ne hd r have "dropWhile is_digit s = CHR '' '' # r"
    by (cases "dropWhile is_digit s") auto
  with d show ?thesis
    by (metis takeWhile_dropWhile_id)
qed

lemma pointer_regex_eq:
  assumes "pointer_regex s = (g, r)"
  shows "s = g @ r"
proof (cases s)
  case Nil
  with assms show ?thesis by (simp add: pointer_regex_def)
next
  case (Cons c t)
  let ?b = "takeWhile (\<lambda>x. x \<noteq> CHR ''@'') t"
  let ?r = "dropWhile (\<lambda>x. x \<noteq> CHR ''@'') t"
  show ?thesis
  proof (cases "c = CHR ''@'' \<and> ?b \<noteq> [] \<and> take 2 ?r = ''@ ''")
    case True
    with assms Cons have g: "g = c # ?b @ ''@ ''" and r: "r = drop 2 ?r"
      by (auto simp: pointer_regex_def Let_def)
    have "t = ?b @ take 2 ?r @ drop 2 ?r"
      by simp
    with True g r Cons show ?thesis
      by simp
  next
    case False
    with assms Cons show ?thesis
      by (auto simp: pointer_regex_def Let_def)
  qed
qed

lemma tag_regex_Some:
  assumes "tag_regex s = Some (t, r)"
  shows "s = t @ r \<and> t \<noteq> []"
  using assms by (auto simp: tag_regex_def Let_def split: if_splits)

lemma value_regex_eq:
  assumes "value_regex s = (v, r)"
  shows "s = v @ r \<and> (\<forall>c\<in>set v. \<not> is_eol c)"
  using assms
  by (cases s)
     (auto simp: value_regex_def is_eol_def LF_def CR_def split: if_splits dest: set_takeWhileD)

lemma end_of_line_regex_Some:
  assumes "end_of_line_regex s = Some (g, r)"
  shows "s = g @ r \<and> g \<noteq> [] \<and> (\<forall>c\<in>set g. is_eol c)"
  using assms
  by (cases s; cases "tl s") (auto simp: end_of_line_regex_def split: if_splits)

lemma last_line_regex_Some:
  assumes "last_line_regex line = Some ((g1, g2, g3, g4), r)"
  shows "line = g1 @ CHR '' '' # g2 @ g3 @ g4 @ r \<and> (\<forall>c\<in>set g4. \<not> is_eol c)"
proof -
  from assms obtain r1 r2 r3 where
    l: "level_regex line = Some (g1, r1)" and p: "pointer_regex r1 = (g2, r2)"
    and t: "tag_regex r2 = Some (g3, r3)" and v: "value_regex r3 = (g4, r)"
    by (auto simp: last_line_regex_def split: option.splits prod.splits)
  from level_regex_Some [OF l] pointer_regex_eq [OF p] tag_regex_Some [OF t] value_regex_eq [OF v]
  show ?thesis by simp
qed

lemma gedcom_line_regex_Some:
  assumes "gedcom_line_regex line = Some (g1, g2, g3, g4, g5)"
  shows "\<exists>rest. line = g1 @ CHR '' '' # g2 @ g3 @ g4 @ g5 @ rest \<and> g5 \<noteq> []
                \<and> (\<forall>c\<in>set g5. is_eol c) \<and> (\<forall>c\<in>set g4. \<not> is_eol c)"
proof -
  from assms obtain r4 r5 where
    l: "last_line_regex line = Some ((g1, g2, g3, g4), r4)"
    and e: "end_of_line_regex r4 = Some (g5, r5)"
    by (auto simp: gedcom_line_regex_def split: option.splits prod.splits)
  from last_line_regex_Some [OF l] end_of_line_regex_Some [OF e]
  show ?thesis by auto
qed

lemma gedcom_line_regex_needs_eol:
  assumes "\<forall>c\<in>set line. \<not> is_eol c"
  shows "gedcom_line_regex line = None"
proof (cases "gedcom_line_regex line")
  case None
  then show ?thesis .
next
  case (Some g)
  obtain g1 g2 g3 g4 g5 where g: "g = (g1, g2, g3, g4, g5)"
    by (cases g) auto
  from gedcom_line_regex_Some [OF Some [unfolded g]]
  obtain rest where "line = g1 @ CHR '' '' # g2 @ g3 @ g4 @ g5 @ rest" "g5 \<noteq> []"
    "\<forall>c\<in>set g5. is_eol c"
    by blast
  then have "hd g5 \<in> set line" "is_eol (hd g5)"
    by auto
  with assms show ?thesis by blast
qed

lemma split_lf_nonempty: "split_lf s \<noteq> []"
  by (induction s) (auto split: list.splits)

lemma split_lf_hd: "set (hd (split_lf s)) \<subseteq> set s - {LF}"
proof (induction s)
  case Nil
  show ?case by simp
next
  case (Cons c cs)
  then show ?case
    using split_lf_nonempty [of cs] by (auto split: list.splits)
qed

lemma set_strip: "set (strip s) \<subseteq> set s"
proof -
  have "set (strip s) \<subseteq> set (rev (dropWhile is_space s))"
    unfolding strip_def lstrip_def rstrip_def using set_dropWhileD by fastforce
  also have "\<dots> \<subseteq> set s"
    using set_dropWhileD by fastforce
  finally show ?thesis .
qed

section \<open>The example documents are what the parser builds\<close>

text \<open>
  The example documents and stores, element by element. Each equation is computed
  from the definition and is then the equation later computations use.
\<close>

lemma head_doc_value [code]:
  "head_doc =
     \<lparr>element_list = [], element_dictionary = [], root_element = 0,
      elements =
        [\<lparr>get_level = - 1, get_pointer = Some [], get_tag = ''ROOT'', get_value = [],
          get_crlf = [LF], get_child_elements = [1], get_parent_element = None\<rparr>,
         \<lparr>get_level = 0, get_pointer = Some [], get_tag = ''HEAD'', get_value = [],
          get_crlf = [LF], get_child_elements = [2], get_parent_element = Some 0\<rparr>,
         \<lparr>get_level = 1, get_pointer = Some [], get_tag = ''SOUR'', get_value = ''x'',
          get_crlf = [LF], get_child_elements = [], get_parent_element = Some 1\<rparr>]\<rparr>"
  by code_simp

lemma data_doc_value [code]:
  "data_doc =
     \<lparr>element_list = [], element_dictionary = [], root_element = 0,
      elements =
        [\<lparr>get_level = - 1, get_pointer = Some [], get_tag = ''ROOT'', get_value = [],
          get_crlf = [LF], get_child_elements = [1], get_parent_element = None\<rparr>,
         \<lparr>get_level = 0, get_pointer = Some [], get_tag = ''HEAD'', get_value = [],
          get_crlf = [LF], get_child_elements = [2], get_parent_element = Some 0\<rparr>,
         \<lparr>get_level = 1, get_pointer = Some [], get_tag = ''SOUR'', get_value = ''x'',
          get_crlf = [LF], get_child_elements = [3], get_parent_element = Some 1\<rparr>,
         \<lparr>get_level = 2, get_pointer = Some [], get_tag = ''DATA'', get_value = [],
          get_crlf = [LF], get_child_elements = [], get_parent_element = Some 2\<rparr>]\<rparr>"
  by code_simp

lemma family_doc_value [code]:
  "family_doc =
     \<lparr>element_list = [], element_dictionary = [], root_element = 0,
      elements =
        [\<lparr>get_level = - 1, get_pointer = Some [], get_tag = ''ROOT'', get_value = [],
          get_crlf = [LF], get_child_elements = [1, 4, 7, 11], get_parent_element = None\<rparr>,
         \<lparr>get_level = 0, get_pointer = Some ''@I1@'', get_tag = ''INDI'', get_value = [],
          get_crlf = [LF], get_child_elements = [2, 3], get_parent_element = Some 0\<rparr>,
         \<lparr>get_level = 1, get_pointer = Some [], get_tag = ''NAME'', get_value = ''John /Doe/'',
          get_crlf = [LF], get_child_elements = [], get_parent_element = Some 1\<rparr>,
         \<lparr>get_level = 1, get_pointer = Some [], get_tag = ''FAMS'', get_value = ''@F1@'',
          get_crlf = [LF], get_child_elements = [], get_parent_element = Some 1\<rparr>,
         \<lparr>get_level = 0, get_pointer = Some ''@I2@'', get_tag = ''INDI'', get_value = [],
          get_crlf = [LF], get_child_elements = [5, 6], get_parent_element = Some 0\<rparr>,
         \<lparr>get_level = 1, get_pointer = Some [], get_tag = ''NAME'', get_value = ''Jane /Roe/'',
          get_crlf = [LF], get_child_elements = [], get_parent_element = Some 4\<rparr>,
         \<lparr>get_level = 1, get_pointer = Some [], get_tag = ''FAMS'', get_value = ''@F1@'',
          get_crlf = [LF], get_child_elements = [], get_parent_element = Some 4\<rparr>,
         \<lparr>get_level = 0, get_pointer = Some ''@F1@'', get_tag = ''FAM'', get_value = [],
          get_crlf = [LF], get_child_elements = [8, 9, 10], get_parent_element = Some 0\<rparr>,
         \<lparr>get_level = 1, get_pointer = Some [], get_tag = ''HUSB'', get_value = ''@I1@'',
          get_crlf = [LF], get_child_elements = [], get_parent_element = Some 7\<rparr>,
         \<lparr>get_level = 1, get_pointer = Some [], get_tag = ''WIFE'', get_value = ''@I2@'',
          get_crlf = [LF], get_child_elements = [], get_parent_element = Some 7\<rparr>,
         \<lparr>get_level = 1, get_pointer = Some [], get_tag = ''CHIL'', get_value = ''@I3@'',
          get_crlf = [LF], get_child_elements = [], get_parent_element = Some 7\<rparr>,
         \<lparr>get_level = 0, get_pointer = Some ''@I3@'', get_tag = ''INDI'', get_value = [],
          get_crlf = [LF], get_child_elements = [12, 13], get_parent_element = Some 0\<rparr>,
         \<lparr>get_level = 1, get_pointer = Some [], get_tag = ''NAME'', get_value = ''Jim /Doe/'',
          get_crlf = [LF], get_child_elements = [], get_parent_element = Some 11\<rparr>,
         \<lparr>get_level = 1, get_pointer = Some [], get_tag = ''FAMC'', get_value = ''@F1@'',
          get_crlf = [LF], get_child_elements = [], get_parent_element = Some 11\<rparr>]\<rparr>"
  by code_simp

lemma marriage_doc_value [code]:
  "marriage_doc =
     \<lparr>element_list = [], element_dictionary = [], root_element = 0,
      elements =
        [\<lparr>get_level = - 1, get_pointer = Some [], get_tag = ''ROOT'', get_value = [],
          get_crlf = [LF], get_child_elements = [1, 3, 10], get_parent_element = None\<rparr>,
         \<lparr>get_level = 0, get_pointer = Some ''@I1@'', get_tag = ''INDI'', get_value = [],
          get_crlf = [LF], get_child_elements = [2], get_parent_element = Some 0\<rparr>,
         \<lparr>get_level = 1, get_pointer = Some [], get_tag = ''FAMS'', get_value = ''@F1@'',
          get_crlf = [LF], get_child_elements = [], get_parent_element = Some 1\<rparr>,
         \<lparr>get_level = 0, get_pointer = Some ''@F1@'', get_tag = ''FAM'', get_value = [],
          get_crlf = [LF], get_child_elements = [4, 5, 6], get_parent_element = Some 0\<rparr>,
         \<lparr>get_level = 1, get_pointer = Some [], get_tag = ''HUSB'', get_value = ''@I1@'',
          get_crlf = [LF], get_child_elements = [], get_parent_element = Some 3\<rparr>,
         \<lparr>get_level = 1, get_pointer = Some [], get_tag = ''CHIL'', get_value = ''@I2@'',
          get_crlf = [LF], get_child_elements = [], get_parent_element = Some 3\<rparr>,
         \<lparr>get_level = 1, get_pointer = Some [], get_tag = ''MARR'', get_value = [],
          get_crlf = [LF], get_child_elements = [7, 8, 9], get_parent_element = Some 3\<rparr>,
         \<lparr>get_level = 2, get_pointer = Some [], get_tag = ''DATE'', get_value = ''1 JAN 1900'',
          get_crlf = [LF], get_child_elements = [], get_parent_element = Some 6\<rparr>,
         \<lparr>get_level = 2, get_pointer = Some [], get_tag = ''PLAC'', get_value = ''Paris'',
          get_crlf = [LF], get_child_elements = [], get_parent_element = Some 6\<rparr>,
         \<lparr>get_level = 2, get_pointer = Some [], get_tag = ''DATE'', get_value = ''2 FEB 1901'',
          get_crlf = [LF], get_child_elements = [], get_parent_element = Some 6\<rparr>,
         \<lparr>get_level = 0, get_pointer = Some ''@I2@'', get_tag = ''INDI'', get_value = [],
          get_crlf = [LF], get_child_elements = [11], get_parent_element = Some 0\<rparr>,
         \<lparr>get_level = 1, get_pointer = Some [], get_tag = ''FAMC'', get_value = ''@F1@'',
          get_crlf = [LF], get_child_elements = [], get_parent_element = Some 10\<rparr>]\<rparr>"
  by code_simp

lemma note_doc_value [code]:
  "note_doc =
     \<lparr>element_list = [], element_dictionary = [], root_element = 0,
      elements =
        [\<lparr>get_level = - 1, get_pointer = Some [], get_tag = ''ROOT'', get_value = [],
          get_crlf = [LF], get_child_elements = [1], get_parent_element = None\<rparr>,
         \<lparr>get_level = 0, get_pointer = Some [], get_tag = ''NOTE'', get_value = ''a'',
          get_crlf = [LF], get_child_elements = [], get_parent_element = Some 0\<rparr>]\<rparr>"
  by code_simp

lemma conc_doc_value [code]:
  "conc_doc =
     \<lparr>element_list = [], element_dictionary = [], root_element = 0,
      elements =
        [\<lparr>get_level = - 1, get_pointer = Some [], get_tag = ''ROOT'', get_value = [],
          get_crlf = [LF], get_child_elements = [1], get_parent_element = None\<rparr>,
         \<lparr>get_level = 0, get_pointer = Some [], get_tag = ''NOTE'', get_value = ''a'',
          get_crlf = [LF], get_child_elements = [2], get_parent_element = Some 0\<rparr>,
         \<lparr>get_level = 1, get_pointer = Some [], get_tag = ''CONC'', get_value = ''b'',
          get_crlf = [LF], get_child_elements = [], get_parent_element = Some 1\<rparr>]\<rparr>"
  by code_simp

lemma jump_heap_value [code]:
  "jump_heap =
     [\<lparr>get_level = - 1, get_pointer = Some [], get_tag = ''ROOT'', get_value = [],
       get_crlf = [LF], get_child_elements = [1], get_parent_element = None\<rparr>,
      \<lparr>get_level = 0, get_pointer = Some [], get_tag = ''HEAD'', get_value = [],
       get_crlf = [CR], get_child_elements = [2], get_parent_element = Some 0\<rparr>,
      \<lparr>get_level = 1, get_pointer = Some [], get_tag = ''SOUR'', get_value = ''x'',
       get_crlf = [CR], get_child_elements = [], get_parent_element = Some 1\<rparr>]"
  by code_simp

lemma spaced_heap_value [code]:
  "spaced_heap =
     [\<lparr>get_level = - 1, get_pointer = Some [], get_tag = ''ROOT'', get_value = [],
       get_crlf = [LF], get_child_elements = [1], get_parent_element = None\<rparr>,
      \<lparr>get_level = 0, get_pointer = Some [], get_tag = ''NOTE'', get_value = ''two  words'',
       get_crlf = [CR, LF], get_child_elements = [], get_parent_element = Some 0\<rparr>]"
  by code_simp

lemma head_doc_parsed: "parse init_parser head_text False = Some (None, head_doc)"
  by code_simp

lemma family_doc_parsed: "parse init_parser family_text False = Some (None, family_doc)"
  by code_simp

section \<open>Level jumps\<close>

text \<open>
  Claim C1. Whatever the mode and whichever grammar or recovery produced the fields of
  the line, a level more than one above the level of the previous element makes
  \<open>parse_line\<close> raise \<open>GedcomFormatViolationError\<close> with the line number.
\<close>

theorem parse_line_level_jump:
  assumes "line_fields line_number line (h ! last_element) strict
             = Inr (level, pointer, tag, v, crlf)"
    and "level > get_level (h ! last_element) + 1"
  shows "parse_line line_number line h last_element strict
           = Some (Inl (GedcomFormatViolationError line_number None))"
  using assms by (simp add: parse_line_def)

theorem parse_line_level_jump_witness:
  "parse_line 3 (''3 DATA'' @ [CR, LF]) (elements head_doc) 2 True
     = Some (Inl (GedcomFormatViolationError 3 None))
   \<and> parse_line 3 (''3 DATA'' @ [CR, LF]) (elements head_doc) 2 False
     = Some (Inl (GedcomFormatViolationError 3 None))"
proof -
  have f: "line_fields 3 (''3 DATA'' @ [CR, LF]) (elements head_doc ! 2) strict
             = Inr (3, Some [], ''DATA'', [], [CR, LF])" for strict
    by (cases strict; code_simp)
  have l: "3 > get_level (elements head_doc ! 2) + 1"
    by code_simp
  show ?thesis
    using parse_line_level_jump [OF f l] by simp
qed

section \<open>Strict parsing of a string\<close>

text \<open>
  Claim C10. \<open>parse\<close> strips the string and splits it at the line feeds, so no line
  it hands to \<open>parse_line\<close> contains a line feed. When the string has no carriage
  return either, the first line has no terminator, the strict grammar fails on it, and
  \<open>parse\<close> raises \<open>GedcomFormatViolationError\<close> for line 1, whatever the lines are.
\<close>

theorem parse_strict_bare_lf:
  assumes "CR \<notin> set string"
  shows "parse p string True =
           Some (Some (GedcomFormatViolationError 1 (Some (hd (split_lf (strip string))))),
                 \<lparr>element_list = [], element_dictionary = [], root_element = 0,
                    elements = [RootElement]\<rparr>)"
proof -
  obtain l ls where ls: "split_lf (strip string) = l # ls"
    using split_lf_nonempty [of "strip string"] by (cases "split_lf (strip string)") auto
  have "set l \<subseteq> set string - {LF}"
    using split_lf_hd [of "strip string"] set_strip [of string] ls by auto
  with assms have "\<forall>c\<in>set l. \<not> is_eol c"
    by (auto simp: is_eol_def)
  then have "gedcom_line_regex l = None"
    by (rule gedcom_line_regex_needs_eol)
  then have "parse_line 1 l [RootElement] 0 True = Some (Inl (GedcomFormatViolationError 1 (Some l)))"
    by (simp add: parse_line_def line_fields_def)
  with ls show ?thesis
    by (simp add: parse_def invalidate_cache_def)
qed

theorem parse_strict_bare_lf_witness:
  "CR \<notin> set head_text
   \<and> gedcom_line_regex (''0 HEAD'' @ [LF]) = Some (''0'', [], ''HEAD'', [], [LF])
   \<and> parse init_parser head_text True
       = Some (Some (GedcomFormatViolationError 1 (Some ''0 HEAD'')),
               \<lparr>element_list = [], element_dictionary = [], root_element = 0,
                  elements = [RootElement]\<rparr>)"
proof -
  have c: "CR \<notin> set head_text"
    by code_simp
  have g: "gedcom_line_regex (''0 HEAD'' @ [LF]) = Some (''0'', [], ''HEAD'', [], [LF])"
    by code_simp
  have h: "hd (split_lf (strip head_text)) = ''0 HEAD''"
    by code_simp
  show ?thesis
    using c g parse_strict_bare_lf [OF c, of init_parser] by (simp add: h)
qed

section \<open>The tree invariant\<close>

lemma find_parent_chain:
  assumes inv: "tree_inv h" and i: "i < length h" and lvl: "lvl - 1 \<le> get_level (h ! i)"
  shows "\<exists>r. find_parent (h @ ext) i lvl = Some r
             \<and> (case r of Inl e \<Rightarrow> lvl < 0
                 | Inr q \<Rightarrow> q < length h \<and> get_level (h ! q) = lvl - 1)"
  using i lvl
proof (induction i rule: less_induct)
  case (less i)
  have nth: "(h @ ext) ! i = h ! i"
    using less.prems by (simp add: nth_append)
  show ?case
  proof (cases "lvl - 1 < get_level (h ! i)")
    case False
    with less.prems nth show ?thesis
      by (subst find_parent.simps) simp
  next
    case True
    show ?thesis
    proof (cases "i = 0")
      case True
      with inv \<open>lvl - 1 < get_level (h ! i)\<close> nth show ?thesis
        by (subst find_parent.simps) (simp add: tree_inv_def)
    next
      case False
      with inv less.prems obtain q where q: "q < i" "get_parent_element (h ! i) = Some q"
        "get_level (h ! i) = get_level (h ! q) + 1"
        unfolding tree_inv_def by blast
      from q True less.prems have "q < length h" "lvl - 1 \<le> get_level (h ! q)"
        by auto
      from less.IH [OF q(1) this] obtain r where
        r: "find_parent (h @ ext) q lvl = Some r"
           "case r of Inl e \<Rightarrow> lvl < 0 | Inr q \<Rightarrow> q < length h \<and> get_level (h ! q) = lvl - 1"
        by blast
      have "find_parent (h @ ext) i lvl = find_parent (h @ ext) q lvl"
        using True q nth by (subst find_parent.simps) simp
      with r show ?thesis by simp
    qed
  qed
qed

lemma add_child_element_append:
  assumes "q < length h"
  shows "add_child_element (h @ [new]) q (length h)
           = h[q := (h ! q)\<lparr>get_child_elements := get_child_elements (h ! q) @ [length h]\<rparr>]
             @ [new\<lparr>get_parent_element := Some q\<rparr>]"
  using assms by (simp add: add_child_element_def Let_def nth_append list_update_append)

lemma attach_tree_inv:
  assumes inv: "tree_inv h" and q: "q < length h" and lvl: "get_level new = get_level (h ! q) + 1"
    and new: "get_child_elements new = []"
  shows "tree_inv (h[q := (h ! q)\<lparr>get_child_elements := get_child_elements (h ! q) @ [length h]\<rparr>]
                   @ [new\<lparr>get_parent_element := Some q\<rparr>])"
    (is "tree_inv ?h'")
proof -
  let ?n = "length h"
  have len: "length ?h' = Suc ?n" by simp
  have old: "get_level (?h' ! i) = get_level (h ! i)
             \<and> get_parent_element (?h' ! i) = get_parent_element (h ! i)
             \<and> get_tag (?h' ! i) = get_tag (h ! i)" if "i < ?n" for i
    using that by (cases "i = q") (simp_all add: nth_append)
  have newn: "get_level (?h' ! ?n) = get_level new" "get_parent_element (?h' ! ?n) = Some q"
    "get_child_elements (?h' ! ?n) = []"
    using new by (simp_all add: nth_append)
  have ch: "get_child_elements (?h' ! i)
            = (if i = q then get_child_elements (h ! i) @ [?n] else get_child_elements (h ! i))"
    if "i < ?n" for i
    using that by (simp add: nth_append)
  from inv have h0: "0 < ?n" by (simp add: tree_inv_def)
  have root: "?h' \<noteq> [] \<and> get_level (?h' ! 0) = - 1 \<and> get_parent_element (?h' ! 0) = None
              \<and> get_tag (?h' ! 0) = ''ROOT''"
    using inv old [OF h0] by (simp add: tree_inv_def)
  have up: "\<exists>p<i. get_parent_element (?h' ! i) = Some p
                   \<and> get_level (?h' ! i) = get_level (?h' ! p) + 1"
    if "i < length ?h'" "0 < i" for i
  proof (cases "i = ?n")
    case True
    with newn lvl old [OF q] q show ?thesis by auto
  next
    case False
    with that have i: "i < ?n" by simp
    with inv that obtain p where p: "p < i" "get_parent_element (h ! i) = Some p"
      "get_level (h ! i) = get_level (h ! p) + 1"
      unfolding tree_inv_def by blast
    from p i have "p < ?n" by simp
    with old [OF i] old [OF this] p show ?thesis by auto
  qed
  have down: "c < length ?h' \<and> get_parent_element (?h' ! c) = Some i"
    if "i < length ?h'" "c \<in> set (get_child_elements (?h' ! i))" for i c
  proof (cases "i = ?n")
    case True
    with newn that show ?thesis by simp
  next
    case False
    with that have i: "i < ?n" by simp
    show ?thesis
    proof (cases "c = ?n")
      case True
      have "?n \<notin> set (get_child_elements (h ! i))"
        using inv i unfolding tree_inv_def by fastforce
      with that ch [OF i] True have "i = q" by (auto split: if_splits)
      with True newn show ?thesis by simp
    next
      case False
      with that ch [OF i] have "c \<in> set (get_child_elements (h ! i))"
        by (auto split: if_splits)
      with inv i have c: "c < ?n" "get_parent_element (h ! c) = Some i"
        unfolding tree_inv_def by auto
      with old [OF c(1)] show ?thesis by simp
    qed
  qed
  from root up down show ?thesis
    unfolding tree_inv_def by blast
qed

lemma tree_inv_well_formed:
  assumes "tree_inv h"
  shows "well_formed h 0"
proof -
  have "c < length h \<and> get_level (h ! c) = get_level (h ! i) + 1"
    if i: "i < length h" and c: "c \<in> set (get_child_elements (h ! i))" for i c
  proof -
    from assms i c have cl: "c < length h" and par: "get_parent_element (h ! c) = Some i"
      unfolding tree_inv_def by auto
    from assms have "get_parent_element (h ! 0) = None"
      unfolding tree_inv_def by simp
    with par have "0 < c"
      by (cases "c = 0") simp_all
    with assms cl obtain q where "get_parent_element (h ! c) = Some q"
      "get_level (h ! c) = get_level (h ! q) + 1"
      unfolding tree_inv_def by blast
    with par cl show ?thesis by simp
  qed
  with assms show ?thesis
    unfolding well_formed_def tree_inv_def by blast
qed

lemma tree_inv_root: "tree_inv [RootElement]"
  by (simp add: tree_inv_def RootElement_def)

lemma parse_line_cases:
  assumes inv: "tree_inv h" and last: "last_element < length h"
  shows "\<exists>r. parse_line n line h last_element strict = Some r
             \<and> (case r of Inl e \<Rightarrow> True
                 | Inr (h', e) \<Rightarrow> tree_inv h' \<and> e = length h \<and> length h' = Suc (length h))"
proof (cases "line_fields n line (h ! last_element) strict")
  case (Inl e)
  then show ?thesis by (simp add: parse_line_def)
next
  case (Inr f)
  obtain level pointer tag v crlf where f: "f = (level, pointer, tag, v, crlf)"
    by (cases f) auto
  show ?thesis
  proof (cases "level > get_level (h ! last_element) + 1")
    case True
    with Inr f show ?thesis by (simp add: parse_line_def)
  next
    case False
    define new where "new = \<lparr>get_level = level, get_pointer = pointer, get_tag = tag,
      get_value = v, get_crlf = crlf, get_child_elements = [], get_parent_element = None\<rparr>"
    from False have "level - 1 \<le> get_level (h ! last_element)" by simp
    from find_parent_chain [OF inv last this, of "[new]"] obtain r where
      r: "find_parent (h @ [new]) last_element level = Some r"
         "case r of Inl e \<Rightarrow> level < 0
          | Inr q \<Rightarrow> q < length h \<and> get_level (h ! q) = level - 1"
      by blast
    show ?thesis
    proof (cases r)
      case (Inl e)
      with r Inr f False show ?thesis
        by (simp add: parse_line_def create_element_def new_def)
    next
      case (Inr q)
      with r have q: "q < length h" "get_level new = get_level (h ! q) + 1"
        by (simp_all add: new_def)
      have "get_child_elements new = []" by (simp add: new_def)
      from attach_tree_inv [OF inv q this]
      have "tree_inv (add_child_element (h @ [new]) q (length h))"
        by (simp add: add_child_element_append [OF q(1)])
      moreover have "length (add_child_element (h @ [new]) q (length h)) = Suc (length h)"
        by (simp add: add_child_element_def Let_def)
      ultimately show ?thesis
        using r Inr \<open>line_fields n line (h ! last_element) strict = Inr f\<close> f False
        by (simp add: parse_line_def create_element_def new_def)
    qed
  qed
qed

lemma parse_lines_tree_inv:
  assumes "tree_inv h" and "last_element < length h"
  shows "\<exists>err h'. parse_lines n h last_element ls strict = Some (err, h') \<and> tree_inv h'"
  using assms
proof (induction ls arbitrary: n h last_element)
  case Nil
  then show ?case by simp
next
  case (Cons line rest)
  from parse_line_cases [OF Cons.prems, of n line strict] obtain r where
    r: "parse_line n line h last_element strict = Some r"
       "case r of Inl e \<Rightarrow> True
        | Inr (h', e) \<Rightarrow> tree_inv h' \<and> e = length h \<and> length h' = Suc (length h)"
    by blast
  show ?case
  proof (cases r)
    case (Inl e)
    with r Cons.prems show ?thesis by simp
  next
    case (Inr he)
    obtain h' e where he: "he = (h', e)" by (cases he) auto
    with r Inr have "tree_inv h'" "e < length h'" by simp_all
    from Cons.IH [OF this, of "n + 1"] r Inr he show ?thesis by simp
  qed
qed

lemma parse_tree_inv:
  "\<exists>err p'. parse p string strict = Some (err, p') \<and> tree_inv (elements p')
            \<and> root_element p' = 0"
proof -
  from parse_lines_tree_inv [OF tree_inv_root, of 0 1 "split_lf (strip string)" strict]
  obtain err h' where "parse_lines 1 [RootElement] 0 (split_lf (strip string)) strict = Some (err, h')"
    "tree_inv h'"
    by auto
  then show ?thesis
    by (simp add: parse_def invalidate_cache_def)
qed

text \<open>
  Claim C9. \<open>parse\<close> always returns, and in the tree it leaves under the root, the
  root is at level -1 and every child is one level below its parent; so it is after a
  successful parse. The step of \<open>parse_line\<close> that attaches the new element keeps the
  invariant for every line it accepts.
\<close>

theorem parse_well_formed:
  "(\<exists>err p'. parse p string strict = Some (err, p')
             \<and> well_formed (elements p') (get_root_element p'))
   \<and> (tree_inv h \<longrightarrow> last_element < length h \<longrightarrow>
        parse_line n line h last_element strict = Some (Inr (h', e)) \<longrightarrow>
        tree_inv h' \<and> well_formed h' 0)"
proof
  from parse_tree_inv [of p string strict] obtain err p' where
    "parse p string strict = Some (err, p')" "tree_inv (elements p')" "root_element p' = 0"
    by blast
  then show "\<exists>err p'. parse p string strict = Some (err, p')
             \<and> well_formed (elements p') (get_root_element p')"
    using tree_inv_well_formed by (auto simp: get_root_element_def)
next
  show "tree_inv h \<longrightarrow> last_element < length h \<longrightarrow>
        parse_line n line h last_element strict = Some (Inr (h', e)) \<longrightarrow>
        tree_inv h' \<and> well_formed h' 0"
    using parse_line_cases [of h last_element n line strict] tree_inv_well_formed
    by auto
qed

theorem parse_well_formed_witness:
  "well_formed (elements family_doc) (get_root_element family_doc)
   \<and> parse_line 3 (''2 DATA'' @ [LF]) (elements head_doc) 2 False
       = Some (Inr (elements data_doc, 3))
   \<and> well_formed (elements data_doc) 0"
proof -
  from parse_well_formed [of init_parser family_text False]
  have a: "well_formed (elements family_doc) (get_root_element family_doc)"
    by (simp add: family_doc_parsed)
  have inv: "tree_inv (elements head_doc)"
    using parse_tree_inv [of init_parser head_text False] by (simp add: head_doc_parsed)
  have len: "2 < length (elements head_doc)"
    by code_simp
  have pl: "parse_line 3 (''2 DATA'' @ [LF]) (elements head_doc) 2 False
              = Some (Inr (elements data_doc, 3))"
    by code_simp
  from parse_well_formed [of init_parser family_text False "elements head_doc" 2 3
      "''2 DATA'' @ [LF]" "elements data_doc" 3] inv len pl
  have "well_formed (elements data_doc) 0"
    by blast
  with a pl show ?thesis by simp
qed

section \<open>What a failed parse leaves behind\<close>

lemma note_doc_parsed: "parse init_parser note_text False = Some (None, note_doc)"
  by code_simp

lemma conc_doc_parsed: "parse init_parser conc_text False = Some (None, conc_doc)"
  by code_simp

lemma parse_line_length:
  assumes "parse_line n line h last_element strict = Some (Inr (h', e))"
  shows "length h' = Suc (length h) \<and> e = length h"
  using assms
  by (auto simp: parse_line_def create_element_def add_child_element_def Let_def
           split: sum.splits prod.splits if_splits option.splits)

lemma parse_lines_length:
  assumes "parse_lines n h last_element ls strict = Some (None, h')"
  shows "length h' = length h + length ls"
  using assms
proof (induction ls arbitrary: n h last_element)
  case Nil
  then show ?case by simp
next
  case (Cons line rest)
  from Cons.prems obtain h1 e where
    pl: "parse_line n line h last_element strict = Some (Inr (h1, e))"
    and rest: "parse_lines (n + 1) h1 e rest strict = Some (None, h')"
    by (auto split: option.splits sum.splits prod.splits)
  from Cons.IH [OF rest] parse_line_length [OF pl] show ?case by simp
qed

lemma parse_lines_abort:
  assumes "parse_lines n h last_element pre strict = Some (None, h1)"
    and "parse_lines n h last_element (pre @ [bad]) strict = Some (Some e, h2)"
  shows "parse_lines n h last_element (pre @ bad # post) strict = Some (Some e, h1)"
  using assms
proof (induction pre arbitrary: n h last_element)
  case Nil
  then show ?case
    by (auto split: option.splits sum.splits prod.splits)
next
  case (Cons line rest)
  from Cons.prems(1) obtain h' el where
    pl: "parse_line n line h last_element strict = Some (Inr (h', el))"
    and rest: "parse_lines (n + 1) h' el rest strict = Some (None, h1)"
    by (auto split: option.splits sum.splits prod.splits)
  from Cons.prems(2) pl have "parse_lines (n + 1) h' el (rest @ [bad]) strict = Some (Some e, h2)"
    by simp
  from Cons.IH [OF rest this] pl show ?case by simp
qed

text \<open>
  Claim C8, as the code has it. \<open>parse\<close> installs the fresh root before the loop
  and \<open>parse_line\<close> attaches every accepted element to the tree under it. When a
  line raises, the loop stops there: no later line is read, both caches are empty, and
  the root holds the elements of the lines before the offending one, one element per
  line.
\<close>

theorem parse_abort_exposes_prefix:
  assumes "split_lf (strip string) = pre @ bad # post"
    and "parse_lines 1 [RootElement] 0 pre strict = Some (None, h1)"
    and "parse_lines 1 [RootElement] 0 (pre @ [bad]) strict = Some (Some e, h2)"
  shows "parse p string strict
           = Some (Some e, \<lparr>element_list = [], element_dictionary = [], root_element = 0,
                             elements = h1\<rparr>)
         \<and> length h1 = Suc (length pre)"
  using parse_lines_abort [OF assms(2,3), of post] parse_lines_length [OF assms(2)] assms(1)
  by (simp add: parse_def invalidate_cache_def)

theorem parse_abort_exposes_prefix_witness:
  "parse init_parser jump_text True
     = Some (Some (GedcomFormatViolationError 3 None),
             \<lparr>element_list = [], element_dictionary = [], root_element = 0,
                elements = jump_heap\<rparr>)
   \<and> length jump_heap = 3"
proof -
  have s: "split_lf (strip jump_text)
             = [''0 HEAD'' @ [CR], ''1 SOUR x'' @ [CR]] @ (''3 DATA'' @ [CR]) # [''0 TRLR'']"
    by code_simp
  have a: "parse_lines 1 [RootElement] 0 [''0 HEAD'' @ [CR], ''1 SOUR x'' @ [CR]] True
             = Some (None, jump_heap)"
    by code_simp
  have b: "parse_lines 1 [RootElement] 0
             ([''0 HEAD'' @ [CR], ''1 SOUR x'' @ [CR]] @ [''3 DATA'' @ [CR]]) True
             = Some (Some (GedcomFormatViolationError 3 None), jump_heap)"
    by code_simp
  from parse_abort_exposes_prefix [OF s a b, of init_parser] show ?thesis
    by simp
qed

text \<open>
  The statement that nothing of the preceding lines is exposed fails: after the
  level jump on line 3 the root still has the record of line 1 as its child.
\<close>

theorem partial_tree_exposed:
  "map_option fst (parse init_parser jump_text True) = Some (Some (GedcomFormatViolationError 3 None))
   \<and> map_option (\<lambda>r. map (\<lambda>c. get_tag (elements (snd r) ! c)) (get_root_child_elements (snd r)))
        (parse init_parser jump_text True) = Some [''HEAD'']"
  by code_simp

section \<open>The value of a line\<close>

lemma add_child_element_new:
  assumes "e < length H"
  shows "get_level (add_child_element H q e ! e) = get_level (H ! e)
         \<and> get_tag (add_child_element H q e ! e) = get_tag (H ! e)
         \<and> get_value (add_child_element H q e ! e) = get_value (H ! e)
         \<and> get_parent_element (add_child_element H q e ! e) = Some q"
  using assms by (cases "q = e") (simp_all add: add_child_element_def Let_def)

lemma parse_line_new_element:
  assumes f: "line_fields n line (h ! last_element) strict = Inr (level, pointer, tag, v, crlf)"
    and pl: "parse_line n line h last_element strict = Some (Inr (h', e))"
  shows "e = length h \<and> get_level (h' ! e) = level \<and> get_tag (h' ! e) = tag
         \<and> get_value (h' ! e) = v
         \<and> (\<exists>q. find_parent (h @ [\<lparr>get_level = level, get_pointer = pointer, get_tag = tag,
                     get_value = v, get_crlf = crlf, get_child_elements = [],
                     get_parent_element = None\<rparr>]) last_element level = Some (Inr q)
                 \<and> get_parent_element (h' ! e) = Some q
                 \<and> h' = add_child_element (h @ [\<lparr>get_level = level, get_pointer = pointer,
                     get_tag = tag, get_value = v, get_crlf = crlf, get_child_elements = [],
                     get_parent_element = None\<rparr>]) q (length h))"
proof -
  let ?H = "h @ [\<lparr>get_level = level, get_pointer = pointer, get_tag = tag,
                     get_value = v, get_crlf = crlf, get_child_elements = [],
                     get_parent_element = None\<rparr>]"
  from f pl have nj: "\<not> level > get_level (h ! last_element) + 1"
    by (auto simp: parse_line_def)
  with f pl have *: "(case find_parent ?H last_element level of
                       None \<Rightarrow> None
                     | Some (Inl e) \<Rightarrow> Some (Inl e)
                     | Some (Inr parent_element) \<Rightarrow>
                         Some (Inr (add_child_element ?H parent_element (length h), length h)))
                    = Some (Inr (h', e))"
    by (simp add: parse_line_def create_element_def)
  then obtain r where r: "find_parent ?H last_element level = Some r"
    by (cases "find_parent ?H last_element level") auto
  with * obtain q where rq: "r = Inr q"
    by (cases r) auto
  with r have q: "find_parent ?H last_element level = Some (Inr q)"
    by simp
  with * have h': "h' = add_child_element ?H q (length h)" and e: "e = length h"
    by auto
  have "length h < length ?H" by simp
  from add_child_element_new [OF this, of q] q have
    "length h = length h \<and> get_level (add_child_element ?H q (length h) ! length h) = level
     \<and> get_tag (add_child_element ?H q (length h) ! length h) = tag
     \<and> get_value (add_child_element ?H q (length h) ! length h) = v
     \<and> find_parent ?H last_element level = Some (Inr q)
     \<and> get_parent_element (add_child_element ?H q (length h) ! length h) = Some q"
    by simp
  then show ?thesis
    unfolding h' e by blast
qed

text \<open>
  Claim C6, as the code has it. For a line that matches the primary grammar, the
  element's value is the text between the tag and the terminator with all leading and
  trailing whitespace removed by \<open>strip()\<close>; the text inside is kept as it is.
\<close>

theorem primary_value_stripped:
  assumes "gedcom_line_regex line = Some (g1, g2, g3, g4, g5)"
    and "parse_line n line h last_element strict = Some (Inr (h', e))"
  shows "(\<exists>rest. line = g1 @ CHR '' '' # g2 @ g3 @ g4 @ g5 @ rest)
         \<and> (\<forall>c\<in>set g4. \<not> is_eol c)
         \<and> get_tag (h' ! e) = g3 \<and> get_value (h' ! e) = strip g4"
proof -
  have "line_fields n line (h ! last_element) strict
          = Inr (int_of_digits g1, Some (rstrip_blank g2), g3, strip g4, g5)"
    using assms(1) by (simp add: line_fields_def)
  from parse_line_new_element [OF this assms(2)] gedcom_line_regex_Some [OF assms(1)]
  show ?thesis by auto
qed

theorem primary_value_stripped_witness:
  "gedcom_line_regex spaced_line = Some (''0'', [], ''NOTE'', ''  two  words  '', [CR, LF])
   \<and> parse_line 1 spaced_line [RootElement] 0 True = Some (Inr (spaced_heap, 1))
   \<and> get_tag (spaced_heap ! 1) = ''NOTE''
   \<and> get_value (spaced_heap ! 1) = strip ''  two  words  ''"
proof -
  have g: "gedcom_line_regex spaced_line = Some (''0'', [], ''NOTE'', ''  two  words  '', [CR, LF])"
    by code_simp
  have pl: "parse_line 1 spaced_line [RootElement] 0 True = Some (Inr (spaced_heap, 1))"
    by code_simp
  from primary_value_stripped [OF g pl] g pl show ?thesis
    by simp
qed

text \<open>
  The value is not the rest of the line less one leading blank: the second leading
  blank and the trailing blanks are removed too.
\<close>

theorem primary_value_not_verbatim:
  "gedcom_line_regex spaced_line = Some (''0'', [], ''NOTE'', ''  two  words  '', [CR, LF])
   \<and> map_option get_value (produced_element (parse_line 1 spaced_line [RootElement] 0 True))
       = Some ''two  words''"
  by code_simp

section \<open>Free-text lines in lenient mode\<close>

lemma tree_inv_level:
  assumes "tree_inv h" and "i < length h"
  shows "if i = 0 then get_level (h ! i) = - 1 else 0 \<le> get_level (h ! i)"
  using assms(2)
proof (induction i rule: less_induct)
  case (less i)
  show ?case
  proof (cases "i = 0")
    case True
    with assms(1) show ?thesis by (simp add: tree_inv_def)
  next
    case False
    with assms(1) less.prems obtain q where q: "q < i" "get_level (h ! i) = get_level (h ! q) + 1"
      unfolding tree_inv_def by blast
    with less.prems have "q < length h" by simp
    from less.IH [OF q(1) this] q False show ?thesis
      by (auto split: if_splits)
  qed
qed

text \<open>
  Claim C5, as the code has it. In lenient mode, a line that matches neither the
  primary grammar nor the terminator-less one and consists of text and a terminator
  yields an element whose value is the text stripped of leading and trailing
  whitespace. After a continuation or concatenation element it has that element's
  level and tag; after any other element it is one level deeper, tagged as
  concatenation, and attached as the last child of that element.
\<close>

theorem free_text_continuation:
  assumes inv: "tree_inv h" and last: "last_element < length h"
    and g: "gedcom_line_regex line = None" and l: "last_line_regex line = None"
    and c: "cont_line_regex line = Some (text, eol)"
  shows "\<exists>h' e. parse_line n line h last_element False = Some (Inr (h', e))
           \<and> get_value (h' ! e) = strip text
           \<and> (if get_tag (h ! last_element) = GEDCOM_TAG_CONTINUED
                  \<or> get_tag (h ! last_element) = GEDCOM_TAG_CONCATENATION
               then get_level (h' ! e) = get_level (h ! last_element)
                    \<and> get_tag (h' ! e) = get_tag (h ! last_element)
               else get_level (h' ! e) = get_level (h ! last_element) + 1
                    \<and> get_tag (h' ! e) = GEDCOM_TAG_CONCATENATION
                    \<and> get_parent_element (h' ! e) = Some last_element
                    \<and> get_child_elements (h' ! last_element)
                        = get_child_elements (h ! last_element) @ [e])"
proof (cases "get_tag (h ! last_element) = GEDCOM_TAG_CONTINUED
              \<or> get_tag (h ! last_element) = GEDCOM_TAG_CONCATENATION")
  case True
  let ?level = "get_level (h ! last_element)"
  let ?tag = "get_tag (h ! last_element)"
  have f: "line_fields n line (h ! last_element) False = Inr (?level, None, ?tag, strip text, eol)"
    using g l c True by (auto simp: line_fields_def)
  from inv have "get_tag (h ! 0) = ''ROOT''"
    by (simp add: tree_inv_def)
  with True have "last_element \<noteq> 0"
    by (cases "last_element = 0")
       (simp_all add: GEDCOM_TAG_CONTINUED_def GEDCOM_TAG_CONCATENATION_def)
  with tree_inv_level [OF inv last] have nonneg: "0 \<le> ?level" by simp
  from parse_line_cases [OF inv last, of n line False] obtain r where
    r: "parse_line n line h last_element False = Some r" by blast
  have "\<exists>h' e. r = Inr (h', e)"
  proof (cases r)
    case (Inl err)
    let ?H = "h @ [\<lparr>get_level = ?level, get_pointer = None, get_tag = ?tag,
                     get_value = strip text, get_crlf = eol, get_child_elements = [],
                     get_parent_element = None\<rparr>]"
    from find_parent_chain [OF inv last, of ?level] obtain r' where
      r': "find_parent ?H last_element ?level = Some r'"
          "case r' of Inl e \<Rightarrow> ?level < 0 | Inr q \<Rightarrow> q < length h \<and> get_level (h ! q) = ?level - 1"
      by force
    with nonneg obtain q where "r' = Inr q" by (cases r') auto
    with r' r Inl f show ?thesis
      by (simp add: parse_line_def create_element_def)
  next
    case (Inr he)
    then show ?thesis by (cases he) auto
  qed
  then obtain h' e where "parse_line n line h last_element False = Some (Inr (h', e))"
    using r by blast
  from parse_line_new_element [OF f this] this True show ?thesis
    by auto
next
  case False
  let ?level = "get_level (h ! last_element) + 1"
  let ?new = "\<lparr>get_level = ?level, get_pointer = None, get_tag = GEDCOM_TAG_CONCATENATION,
                     get_value = strip text, get_crlf = eol, get_child_elements = [],
                     get_parent_element = None\<rparr>"
  have f: "line_fields n line (h ! last_element) False
             = Inr (?level, None, GEDCOM_TAG_CONCATENATION, strip text, eol)"
    using g l c False by (auto simp: line_fields_def)
  have fp: "find_parent (h @ [?new]) last_element ?level = Some (Inr last_element)"
    using last by (subst find_parent.simps) (simp add: nth_append)
  have pl: "parse_line n line h last_element False
              = Some (Inr (add_child_element (h @ [?new]) last_element (length h), length h))"
    using f fp by (simp add: parse_line_def create_element_def)
  from parse_line_new_element [OF f pl] fp
  have a: "get_level (add_child_element (h @ [?new]) last_element (length h) ! length h) = ?level"
    "get_tag (add_child_element (h @ [?new]) last_element (length h) ! length h)
       = GEDCOM_TAG_CONCATENATION"
    "get_value (add_child_element (h @ [?new]) last_element (length h) ! length h) = strip text"
    "get_parent_element (add_child_element (h @ [?new]) last_element (length h) ! length h)
       = Some last_element"
    by simp_all
  have b: "get_child_elements (add_child_element (h @ [?new]) last_element (length h) ! last_element)
             = get_child_elements (h ! last_element) @ [length h]"
    using last by (simp add: add_child_element_append nth_append)
  from pl a b False show ?thesis
    by simp
qed

theorem free_text_continuation_witness:
  "(\<exists>h' e. parse_line 2 (''more'' @ [CR]) (elements note_doc) 1 False = Some (Inr (h', e))
      \<and> get_value (h' ! e) = ''more'' \<and> get_level (h' ! e) = 1 \<and> get_tag (h' ! e) = ''CONC''
      \<and> get_parent_element (h' ! e) = Some 1 \<and> get_child_elements (h' ! 1) = [e])
   \<and> (\<exists>h' e. parse_line 3 (''more'' @ [CR]) (elements conc_doc) 2 False = Some (Inr (h', e))
      \<and> get_value (h' ! e) = ''more'' \<and> get_level (h' ! e) = 1 \<and> get_tag (h' ! e) = ''CONC'')"
proof -
  have g: "gedcom_line_regex (''more'' @ [CR]) = None"
    and l: "last_line_regex (''more'' @ [CR]) = None"
    and c: "cont_line_regex (''more'' @ [CR]) = Some (''more'', [CR])"
    and s: "strip ''more'' = ''more''"
    by code_simp+
  have inv1: "tree_inv (elements note_doc)"
    using parse_tree_inv [of init_parser note_text False]
    by (simp add: note_doc_parsed)
  have inv2: "tree_inv (elements conc_doc)"
    using parse_tree_inv [of init_parser conc_text False]
    by (simp add: conc_doc_parsed)
  have n1: "1 < length (elements note_doc)" "get_tag (elements note_doc ! 1) = ''NOTE''"
    "get_level (elements note_doc ! 1) = 0" "get_child_elements (elements note_doc ! 1) = []"
    by code_simp+
  have n2: "2 < length (elements conc_doc)" "get_tag (elements conc_doc ! 2) = ''CONC''"
    "get_level (elements conc_doc ! 2) = 1"
    by code_simp+
  from free_text_continuation [OF inv1 n1(1) g l c, of 2] n1
  have a: "\<exists>h' e. parse_line 2 (''more'' @ [CR]) (elements note_doc) 1 False = Some (Inr (h', e))
      \<and> get_value (h' ! e) = ''more'' \<and> get_level (h' ! e) = 1 \<and> get_tag (h' ! e) = ''CONC''
      \<and> get_parent_element (h' ! e) = Some 1 \<and> get_child_elements (h' ! 1) = [e]"
    by (simp add: s GEDCOM_TAG_CONTINUED_def GEDCOM_TAG_CONCATENATION_def)
  from free_text_continuation [OF inv2 n2(1) g l c, of 3] n2
  have b: "\<exists>h' e. parse_line 3 (''more'' @ [CR]) (elements conc_doc) 2 False = Some (Inr (h', e))
      \<and> get_value (h' ! e) = ''more'' \<and> get_level (h' ! e) = 1 \<and> get_tag (h' ! e) = ''CONC''"
    by (simp add: s GEDCOM_TAG_CONTINUED_def GEDCOM_TAG_CONCATENATION_def)
  from a b show ?thesis by blast
qed

text \<open>
  The value is not the text of the line as it stands: blanks around it are removed.
\<close>

theorem free_text_value_stripped:
  "gedcom_line_regex (''  b  '' @ [LF]) = None \<and> last_line_regex (''  b  '' @ [LF]) = None
   \<and> cont_line_regex (''  b  '' @ [LF]) = Some (''  b  '', [LF])
   \<and> map_option get_value
        (produced_element (parse_line 2 (''  b  '' @ [LF]) (elements note_doc) 1 False))
       = Some ''b''"
  by code_simp

section \<open>The pointer index\<close>

lemma marriage_doc_parsed: "parse init_parser marriage_text False = Some (None, marriage_doc)"
  by code_simp

lemma cache_fill_idem:
  "get_element_dictionary (p\<lparr>element_dictionary := get_element_dictionary p\<rparr>)
     = get_element_dictionary p"
  by (simp add: get_element_dictionary_def build_dictionary_def get_root_child_elements_def
                get_root_element_def)

section \<open>Parents\<close>

text \<open>
  Claim C4. For an individual, \<open>get_parents\<close> returns a pair (husband, wife) and
  never raises. Without a child-of-family link both slots are \<open>None\<close>. When the link
  resolves to a family, each slot is decided by that family's own pointer alone: it is
  \<open>None\<close> when the family has no such pointer and the resolved pointer otherwise,
  whatever the other slot is.
\<close>

theorem get_parents_slots:
  assumes "is_IndividualElement p (Some i)"
  shows "\<exists>husband wife. get_parents p (Some i) = Inr (husband, wife)
           \<and> (\<not> is_child_in_a_family p i \<longrightarrow> husband = None \<and> wife = None)
           \<and> (\<forall>family. is_child_in_a_family p i
                 \<longrightarrow> get_element_by_pointer p (get_parent_family_pointer p i) = Some family
                 \<longrightarrow> is_FamilyElement p (Some family)
                 \<longrightarrow> husband = (if has_husband p family
                                 then get_element_by_pointer p (get_husband_pointer p family)
                                 else None)
                   \<and> wife = (if has_wife p family
                              then get_element_by_pointer p (get_wife_pointer p family)
                              else None))"
proof (cases "is_child_in_a_family p i")
  case False
  with assms show ?thesis by (simp add: get_parents_def)
next
  case True
  show ?thesis
  proof (cases "get_element_by_pointer p (get_parent_family_pointer p i)")
    case None
    with assms True show ?thesis by (simp add: get_parents_def)
  next
    case (Some family)
    with assms True show ?thesis
      by (cases "is_FamilyElement p (Some family)") (simp_all add: get_parents_def Let_def)
  qed
qed

theorem get_parents_slots_witness:
  "get_parents family_doc (Some 11) = Inr (Some 1, Some 4)
   \<and> get_parents marriage_doc (Some 10) = Inr (Some 1, None)
   \<and> get_parents family_doc (Some 1) = Inr (None, None)"
proof -
  have a: "is_IndividualElement family_doc (Some 11)" "is_child_in_a_family family_doc 11"
    "get_element_by_pointer family_doc (get_parent_family_pointer family_doc 11) = Some 7"
    "is_FamilyElement family_doc (Some 7)" "has_husband family_doc 7" "has_wife family_doc 7"
    "get_element_by_pointer family_doc (get_husband_pointer family_doc 7) = Some 1"
    "get_element_by_pointer family_doc (get_wife_pointer family_doc 7) = Some 4"
    by code_simp+
  have b: "is_IndividualElement marriage_doc (Some 10)" "is_child_in_a_family marriage_doc 10"
    "get_element_by_pointer marriage_doc (get_parent_family_pointer marriage_doc 10) = Some 3"
    "is_FamilyElement marriage_doc (Some 3)" "has_husband marriage_doc 3"
    "\<not> has_wife marriage_doc 3"
    "get_element_by_pointer marriage_doc (get_husband_pointer marriage_doc 3) = Some 1"
    by code_simp+
  have c: "is_IndividualElement family_doc (Some 1)" "\<not> is_child_in_a_family family_doc 1"
    by code_simp+
  from get_parents_slots [OF a(1)] a have "get_parents family_doc (Some 11) = Inr (Some 1, Some 4)"
    by auto
  moreover from get_parents_slots [OF b(1)] b
  have "get_parents marriage_doc (Some 10) = Inr (Some 1, None)"
    by auto
  moreover from get_parents_slots [OF c(1)] c
  have "get_parents family_doc (Some 1) = Inr (None, None)"
    by auto
  ultimately show ?thesis by simp
qed

section \<open>Marriages\<close>

lemma marriage_data_fold:
  "foldl (marriage_data_step p) (date, place) cs
     = ((if filter (\<lambda>c. get_tag (elements p ! c) = GEDCOM_TAG_DATE) cs = [] then date
         else get_value (elements p
                ! last (filter (\<lambda>c. get_tag (elements p ! c) = GEDCOM_TAG_DATE) cs))),
        (if filter (\<lambda>c. get_tag (elements p ! c) = GEDCOM_TAG_PLACE) cs = [] then place
         else get_value (elements p
                ! last (filter (\<lambda>c. get_tag (elements p ! c) = GEDCOM_TAG_PLACE) cs))))"
proof (induction cs rule: rev_induct)
  case Nil
  show ?case by simp
next
  case (snoc x xs)
  show ?case
    by (simp only: foldl_append foldl.simps snoc.IH)
       (simp add: marriage_data_step_def Let_def)
qed

lemma family_data_fold:
  "foldl (family_data_step p) marriages cs
     = marriages @ map (\<lambda>m. (last_value p m GEDCOM_TAG_DATE, last_value p m GEDCOM_TAG_PLACE))
                       (filter (\<lambda>c. get_tag (elements p ! c) = GEDCOM_TAG_MARRIAGE) cs)"
proof (induction cs arbitrary: marriages)
  case Nil
  show ?case by simp
next
  case (Cons c cs)
  have "family_data_step p marriages c
          = (if get_tag (elements p ! c) = GEDCOM_TAG_MARRIAGE
             then marriages @ [(last_value p c GEDCOM_TAG_DATE, last_value p c GEDCOM_TAG_PLACE)]
             else marriages)"
    by (simp add: family_data_step_def marriage_data_fold last_value_def children_with_tag_def)
  then show ?case
    by (simp only: foldl.simps Cons.IH) simp
qed

lemma families_fold:
  "foldl (\<lambda>marriages family.
            foldl (family_data_step p) marriages (get_child_elements (elements p ! family)))
         marriages families
     = marriages @ map (\<lambda>m. (last_value p m GEDCOM_TAG_DATE, last_value p m GEDCOM_TAG_PLACE))
                       (marriage_events p families)"
proof (induction families arbitrary: marriages)
  case Nil
  show ?case by (simp add: marriage_events_def)
next
  case (Cons f fs)
  show ?case
    by (simp only: foldl.simps Cons.IH)
       (simp add: family_data_fold marriage_events_def children_with_tag_def)
qed

text \<open>
  Claim C3, as the code has it. For an individual, \<open>get_marriages\<close> returns one
  pair (date, place) per marriage event of the spouse-families, in order. The date is
  the value of the last child of the event with the date tag, the place that of the last
  child with the place tag, and a missing one is the empty string.
\<close>

theorem get_marriages_last_wins:
  assumes "is_IndividualElement p (Some i)"
  shows "\<exists>families. get_families p (Some i) GEDCOM_TAG_FAMILY_SPOUSE = Inr families
           \<and> get_marriages p (Some i)
               = Inr (map (\<lambda>m. (last_value p m GEDCOM_TAG_DATE, last_value p m GEDCOM_TAG_PLACE))
                          (marriage_events p families))"
proof -
  from assms obtain families where
    f: "get_families p (Some i) GEDCOM_TAG_FAMILY_SPOUSE = Inr families"
    by (simp add: get_families_def)
  with assms have "get_marriages p (Some i)
      = Inr (map (\<lambda>m. (last_value p m GEDCOM_TAG_DATE, last_value p m GEDCOM_TAG_PLACE))
                 (marriage_events p families))"
    by (simp add: get_marriages_def families_fold)
  with f show ?thesis by blast
qed

theorem get_marriages_last_wins_witness:
  "get_families marriage_doc (Some 1) GEDCOM_TAG_FAMILY_SPOUSE = Inr [3]
   \<and> marriage_events marriage_doc [3] = [6]
   \<and> get_marriages marriage_doc (Some 1) = Inr [(''2 FEB 1901'', ''Paris'')]"
proof -
  have a: "is_IndividualElement marriage_doc (Some 1)"
    "get_families marriage_doc (Some 1) GEDCOM_TAG_FAMILY_SPOUSE = Inr [3]"
    "marriage_events marriage_doc [3] = [6]"
    "last_value marriage_doc 6 GEDCOM_TAG_DATE = ''2 FEB 1901''"
    "last_value marriage_doc 6 GEDCOM_TAG_PLACE = ''Paris''"
    by code_simp+
  from get_marriages_last_wins [OF a(1)] a show ?thesis
    by auto
qed

text \<open>
  The first date does not decide: of the two dates of the event, the second is
  returned.
\<close>

theorem get_marriages_not_first_date:
  "get_marriages marriage_doc (Some 1) = Inr [(''2 FEB 1901'', ''Paris'')]
   \<and> map (\<lambda>c. get_value (elements marriage_doc ! c))
         (children_with_tag marriage_doc 6 GEDCOM_TAG_DATE) = [''1 JAN 1900'', ''2 FEB 1901'']"
  by code_simp

section \<open>Ancestors\<close>

text \<open>
  Claim C2. For an individual whose father and mother are both present,
  \<open>get_ancestors\<close> should return the list of the parents and their ancestors. It
  does not: in the example family I3 has father I1 and mother I2, the call on I1 finds
  both parent slots of I1 empty, calls itself on \<open>None\<close>, and the \<open>isinstance\<close>
  test there raises \<open>NotAnActualIndividualError\<close>, which is the outcome for I3.
\<close>

theorem get_ancestors_raises:
  "get_parents family_doc (Some 11) = Inr (Some 1, Some 4)
   \<and> get_parents family_doc (Some 1) = Inr (None, None)
   \<and> get_ancestors family_doc None = Some (Inl NotAnActualIndividualError)
   \<and> get_ancestors family_doc (Some 1) = Some (Inl NotAnActualIndividualError)
   \<and> get_ancestors family_doc (Some 11) = Some (Inl NotAnActualIndividualError)"
  by code_simp

text \<open>
  The same holds on every document: the recursion runs on every slot of the pair,
  also on one that is \<open>None\<close>, so a call of \<open>get_ancestors\<close> that returns
  returns this exception and never a list.
\<close>

lemma get_parents_error:
  assumes "get_parents p x = Inl e"
  shows "e = NotAnActualIndividualError"
  using assms
  by (auto simp: get_parents_def Let_def split: option.splits if_splits)

lemma get_ancestors_never_returns_a_list:
  assumes "get_ancestors p x = Some r"
  shows "r = Inl NotAnActualIndividualError"
proof (rule get_ancestors.raw_induct
         [where P = "\<lambda>p x r. r = Inl NotAnActualIndividualError", OF _ assms])
  fix rec :: "parser \<Rightarrow> nat option \<Rightarrow> (error + nat option list) option"
    and p individual r
  assume IH: "\<And>p x r. rec p x = Some r \<Longrightarrow> r = Inl NotAnActualIndividualError"
  assume body:
    "(if \<not> is_IndividualElement p individual then Some (Inl NotAnActualIndividualError)
      else
        (case get_parents p individual of
           Inl e \<Rightarrow> Some (Inl e)
         | Inr (husband, wife) \<Rightarrow>
             Option.bind (rec p husband) (\<lambda>r1.
               case r1 of
                 Inl e \<Rightarrow> Some (Inl e)
               | Inr a1 \<Rightarrow>
                   Option.bind (rec p wife) (\<lambda>r2.
                     case r2 of
                       Inl e \<Rightarrow> Some (Inl e)
                     | Inr a2 \<Rightarrow> Some (Inr (([] @ [husband, wife]) @ a1 @ a2)))))) = Some r"
  show "r = Inl NotAnActualIndividualError"
  proof (cases "is_IndividualElement p individual")
    case False
    with body show ?thesis by simp
  next
    case True
    show ?thesis
    proof (cases "get_parents p individual")
      case (Inl e)
      with body True get_parents_error [OF Inl] show ?thesis by simp
    next
      case (Inr hw)
      obtain husband wife where hw: "hw = (husband, wife)" by (cases hw) auto
      from body True Inr hw obtain r1 where r1: "rec p husband = Some r1"
        by (auto simp: bind_eq_Some_conv)
      from IH [OF r1] have "r1 = Inl NotAnActualIndividualError" .
      with body True Inr hw r1 show ?thesis by simp
    qed
  qed
qed

section \<open>Paths to an ancestor\<close>

text \<open>
  Claim C7. The search should pass over an absent parent slot. In the example family
  the path from I3 to the father I1 is found; the search for the mother I2 first
  follows the father, whose parents are both absent, calls itself on \<open>None\<close> and
  raises \<open>NotAnActualIndividualError\<close>.
\<close>

theorem find_path_raises_at_absent_parent:
  "get_parents family_doc (Some 11) = Inr (Some 1, Some 4)
   \<and> get_parents family_doc (Some 1) = Inr (None, None)
   \<and> find_path_to_ancestor family_doc (Some 11) (Some 1) None = Some (Inr (Some [Some 11, Some 1]))
   \<and> find_path_to_ancestor family_doc (Some 11) (Some 4) None
       = Some (Inl NotAnActualIndividualError)"
  by code_simp

text \<open>
  In general: a descendant that is not the ancestor and has no father makes the
  search raise, whatever the mother slot holds.
\<close>

lemma find_path_absent_father:
  assumes d: "is_IndividualElement p (Some d)" and a: "is_IndividualElement p (Some a)"
    and differ: "get_pointer (elements p ! d) \<noteq> get_pointer (elements p ! a)"
    and parents: "get_parents p (Some d) = Inr (None, wife)"
  shows "find_path_to_ancestor p (Some d) (Some a) None = Some (Inl NotAnActualIndividualError)"
proof -
  have none: "find_path_to_ancestor p None (Some a) path = Some (Inl NotAnActualIndividualError)"
    for path
    by (subst find_path_to_ancestor.simps) (simp add: is_IndividualElement_def)
  show ?thesis
    using d a differ parents
    by (subst find_path_to_ancestor.simps) (simp add: none)
qed

end
